theory Spec2Isabelle
  imports Complex_Main "HOL-Library.Log_Nat"
begin

section \<open>JavaScript numbers\<close>

text \<open>
  The calculator of \<^verbatim>\<open>src/page.tsx\<close> computes with JavaScript numbers, that is with
  IEEE 754 binary64 values. A number is modelled as one of the special values
  \<^verbatim>\<open>Infinity\<close>, \<^verbatim>\<open>-Infinity\<close> and \<^verbatim>\<open>NaN\<close>, or as \<open>Fin q\<close> where the rational \<open>q\<close> is the
  exact value of a finite binary64 number. The two zeros of binary64 are the one value
  \<open>Fin 0\<close>: they differ only under a division by zero, and every divisor in the code
  below is \<open>10\<close>, \<open>100\<close> or a value that was tested \<^verbatim>\<open>> 0\<close>.
\<close>

datatype number = Fin rat | PInf | NInf | NaN

subsection \<open>Rounding to binary64\<close>

text \<open>
  \<open>ilog2 x\<close> is the binary exponent of a positive rational: the integer \<open>k\<close> with
  \<open>2 powi k \<le> x < 2 powi (k + 1)\<close>.
\<close>

definition ilog2 :: "rat \<Rightarrow> int" where
  "ilog2 x = (if 1 \<le> x then bitlen \<lfloor>x\<rfloor> - 1 else - bitlen (\<lceil>1 / x\<rceil> - 1))"

text \<open>The nearest integer, a tie going to the even one.\<close>

definition round_half_even :: "rat \<Rightarrow> int" where
  "round_half_even y =
     (let n = \<lfloor>y\<rfloor>; d = y - of_int n
      in if d < 1 / 2 then n else if 1 / 2 < d then n + 1 else if even n then n else n + 1)"

text \<open>
  \<open>binary64 x\<close> is the binary64 number that the exact result \<open>x\<close> of an operation is
  rounded to, in the default mode (to nearest, ties to even). With \<open>E\<close> the exponent of
  \<open>x\<close>, but not less than \<open>-1022\<close> (below it are the subnormal numbers), the result is
  the multiple \<open>m * 2 powi (E - 52)\<close> nearest to \<open>x\<close>, where \<open>\<bar>m\<bar> \<le> 2 ^ 53\<close>. It is an
  infinity when that multiple reaches \<open>2 ^ 1024\<close>: when \<open>E\<close> is above 1023, or is 1023
  with \<open>m\<close> rounded up to \<open>2 ^ 53\<close>. It is also the value of a decimal literal:
  \<^verbatim>\<open>0.03\<close> is \<open>binary64 (3 / 100)\<close>.
\<close>

definition binary64 :: "rat \<Rightarrow> number" where
  "binary64 x =
     (if x = 0 then Fin 0
      else let E = max (ilog2 \<bar>x\<bar>) (- 1022);
               m = round_half_even (x / 2 powi (E - 52))
           in if 1023 < E \<or> (E = 1023 \<and> \<bar>m\<bar> = 2 ^ 53)
              then (if 0 < x then PInf else NInf)
              else Fin (of_int m * 2 powi (E - 52)))"

subsection \<open>The operators\<close>

text \<open>
  The binary operators \<^verbatim>\<open>*\<close>, \<^verbatim>\<open>+\<close>, \<^verbatim>\<open>/\<close> round the exact result of finite operands
  to binary64; unary \<^verbatim>\<open>-\<close> is exact.
\<close>

fun js_mul :: "number \<Rightarrow> number \<Rightarrow> number" where
  "js_mul NaN y = NaN"
| "js_mul x NaN = NaN"
| "js_mul (Fin a) (Fin b) = binary64 (a * b)"
| "js_mul (Fin a) PInf = (if a = 0 then NaN else if 0 < a then PInf else NInf)"
| "js_mul (Fin a) NInf = (if a = 0 then NaN else if 0 < a then NInf else PInf)"
| "js_mul PInf (Fin b) = (if b = 0 then NaN else if 0 < b then PInf else NInf)"
| "js_mul NInf (Fin b) = (if b = 0 then NaN else if 0 < b then NInf else PInf)"
| "js_mul PInf PInf = PInf"
| "js_mul PInf NInf = NInf"
| "js_mul NInf PInf = NInf"
| "js_mul NInf NInf = PInf"

fun js_add :: "number \<Rightarrow> number \<Rightarrow> number" where
  "js_add NaN y = NaN"
| "js_add x NaN = NaN"
| "js_add (Fin a) (Fin b) = binary64 (a + b)"
| "js_add (Fin a) PInf = PInf"
| "js_add (Fin a) NInf = NInf"
| "js_add PInf (Fin b) = PInf"
| "js_add NInf (Fin b) = NInf"
| "js_add PInf PInf = PInf"
| "js_add NInf NInf = NInf"
| "js_add PInf NInf = NaN"
| "js_add NInf PInf = NaN"

fun js_div :: "number \<Rightarrow> number \<Rightarrow> number" where
  "js_div NaN y = NaN"
| "js_div x NaN = NaN"
| "js_div (Fin a) (Fin b) =
     (if b = 0 then (if a = 0 then NaN else if 0 < a then PInf else NInf)
      else binary64 (a / b))"
| "js_div (Fin a) PInf = Fin 0"
| "js_div (Fin a) NInf = Fin 0"
| "js_div PInf (Fin b) = (if 0 \<le> b then PInf else NInf)"
| "js_div NInf (Fin b) = (if 0 \<le> b then NInf else PInf)"
| "js_div PInf PInf = NaN"
| "js_div PInf NInf = NaN"
| "js_div NInf PInf = NaN"
| "js_div NInf NInf = NaN"

fun js_neg :: "number \<Rightarrow> number" where
  "js_neg NaN = NaN"
| "js_neg (Fin a) = Fin (- a)"
| "js_neg PInf = NInf"
| "js_neg NInf = PInf"

text \<open>The comparisons \<^verbatim>\<open>>\<close> and \<^verbatim>\<open><=\<close>: false as soon as one side is \<^verbatim>\<open>NaN\<close>.\<close>

fun js_gt :: "number \<Rightarrow> number \<Rightarrow> bool" where
  "js_gt NaN y = False"
| "js_gt x NaN = False"
| "js_gt (Fin a) (Fin b) = (b < a)"
| "js_gt PInf PInf = False"
| "js_gt PInf y = True"
| "js_gt x NInf = (x \<noteq> NInf)"
| "js_gt x PInf = False"
| "js_gt NInf y = False"

fun js_le :: "number \<Rightarrow> number \<Rightarrow> bool" where
  "js_le NaN y = False"
| "js_le x NaN = False"
| "js_le x y = (\<not> js_gt x y)"

text \<open>
  \<^verbatim>\<open>Math.max\<close> of two arguments is \<^verbatim>\<open>NaN\<close> when one of them is. \<^verbatim>\<open>Math.round\<close> is
  the nearest integer with ties towards plus infinity, \<open>\<lfloor>x + 1/2\<rfloor>\<close>, computed on the
  value of its argument and not by a binary64 addition of \<open>0.5\<close>; the result needs no
  rounding, since a binary64 number of magnitude \<open>2 ^ 52\<close> or more is an integer and
  every integer up to \<open>2 ^ 53\<close> is a binary64 number.
\<close>

fun Math_max :: "number \<Rightarrow> number \<Rightarrow> number" where
  "Math_max NaN y = NaN"
| "Math_max x NaN = NaN"
| "Math_max x y = (if js_gt y x then y else x)"

fun Math_round :: "number \<Rightarrow> number" where
  "Math_round (Fin a) = Fin (of_int \<lfloor>a + 1 / 2\<rfloor>)"
| "Math_round x = x"

text \<open>
  \<^verbatim>\<open>x || y\<close> on a number \<open>x\<close>: the falsy numbers are zero and \<^verbatim>\<open>NaN\<close>.
\<close>

fun js_or :: "number \<Rightarrow> number \<Rightarrow> number" where
  "js_or NaN y = y"
| "js_or (Fin a) y = (if a = 0 then y else Fin a)"
| "js_or x y = x"

section \<open>The calculator\<close>

subsection \<open>The feedstock catalog\<close>

record feedstock_profile =
  key :: string
  label :: string
  factor_m3_per_kg :: number

text \<open>
  The labels \<^verbatim>\<open>Qoramol go'ngi\<close> and \<^verbatim>\<open>Parranda go'ngi\<close> are written in the source with
  the character U+2018, here its three UTF-8 bytes.
\<close>

definition FEEDSTOCK :: "feedstock_profile list" where
  "FEEDSTOCK =
    [\<lparr>key = ''cattle'',
      label = ''Qoramol go'' @ [CHR 0xE2, CHR 0x80, CHR 0x98] @ ''ngi'',
      factor_m3_per_kg = binary64 (3 / 100)\<rparr>,
     \<lparr>key = ''poultry'',
      label = ''Parranda go'' @ [CHR 0xE2, CHR 0x80, CHR 0x98] @ ''ngi'',
      factor_m3_per_kg = binary64 (6 / 100)\<rparr>,
     \<lparr>key = ''food'',
      label = ''Oziq-ovqat chiqindisi'',
      factor_m3_per_kg = binary64 (9 / 100)\<rparr>,
     \<lparr>key = ''mixed'',
      label = ''Aralash organik'',
      factor_m3_per_kg = binary64 (5 / 100)\<rparr>]"

subsection \<open>\<^verbatim>\<open>round(x, d)\<close>\<close>

text \<open>
  \<^verbatim>\<open>10 ** d\<close> is exact for the two values of \<open>d\<close> in use, 1 and 2 (and up to 22).
\<close>

definition round_js :: "number \<Rightarrow> nat \<Rightarrow> number" where
  "round_js x d = (let p = Fin (10 ^ d) in js_div (Math_round (js_mul x p)) p)"

subsection \<open>\<^verbatim>\<open>estimate\<close>\<close>

text \<open>
  The argument object of \<^verbatim>\<open>estimate\<close>. The two prices have default values in the
  parameter list, which JavaScript uses when the property is missing or \<^verbatim>\<open>undefined\<close>:
  that is \<open>None\<close> here. The parameter list destructures these four properties and
  nothing else, so the functions below take the record with any extension.
\<close>

record estimate_args =
  feedstockKey :: string
  kgPerDay :: number
  gasPriceUZS :: "number option"
  electricityPriceUZS :: "number option"

text \<open>The object that \<^verbatim>\<open>estimate\<close> returns; \<^verbatim>\<open>null\<close> is \<open>None\<close>.\<close>

record estimate_result =
  feedstock :: string
  biogas_m3 :: number
  thermal_kwh :: number
  electric_kwh :: number
  monthly_saving :: number
  capex :: number
  payback_months :: "number option"
  co2_kg_per_day :: number

text \<open>
  The parameters after defaulting, and the local constants of the body in the order of
  the source. Each \<open>est_x\<close> is the constant \<^verbatim>\<open>x\<close> of the source, before the rounding
  that the \<^verbatim>\<open>return\<close> statement applies.

  The body reads its four parameters and the constant \<^verbatim>\<open>FEEDSTOCK\<close>, assigns to no
  variable outside itself and calls only \<^verbatim>\<open>find\<close>, \<^verbatim>\<open>Math.max\<close>, \<^verbatim>\<open>Math.round\<close> and
  \<^verbatim>\<open>round\<close>. This is what allows \<^verbatim>\<open>estimate\<close> to be a function of its argument here; that
  equal arguments give equal results is then a property of the model by construction
  and not a theorem about the code.
\<close>

definition est_gasPriceUZS :: "'a estimate_args_scheme \<Rightarrow> number" where
  "est_gasPriceUZS a = (case gasPriceUZS a of None \<Rightarrow> Fin 1800 | Some p \<Rightarrow> p)"

definition est_electricityPriceUZS :: "'a estimate_args_scheme \<Rightarrow> number" where
  "est_electricityPriceUZS a =
     (case electricityPriceUZS a of None \<Rightarrow> Fin 450 | Some p \<Rightarrow> p)"

definition est_fs :: "'a estimate_args_scheme \<Rightarrow> feedstock_profile" where
  "est_fs a =
     (case find (\<lambda>x. key x = feedstockKey a) FEEDSTOCK of
        Some x \<Rightarrow> x
      | None \<Rightarrow> FEEDSTOCK ! 0)"

definition est_biogas_m3 :: "'a estimate_args_scheme \<Rightarrow> number" where
  "est_biogas_m3 a = js_mul (Math_max (Fin 0) (kgPerDay a)) (factor_m3_per_kg (est_fs a))"

definition est_thermal_kwh :: "'a estimate_args_scheme \<Rightarrow> number" where
  "est_thermal_kwh a = js_mul (est_biogas_m3 a) (Fin 6)"

definition est_electric_kwh :: "'a estimate_args_scheme \<Rightarrow> number" where
  "est_electric_kwh a = js_mul (est_biogas_m3 a) (Fin 2)"

definition est_monthly_saving :: "'a estimate_args_scheme \<Rightarrow> number" where
  "est_monthly_saving a =
     js_mul
       (js_add (js_mul (est_biogas_m3 a) (est_gasPriceUZS a))
               (js_mul (est_electric_kwh a) (est_electricityPriceUZS a)))
       (Fin 30)"

definition est_capex :: "'a estimate_args_scheme \<Rightarrow> number" where
  "est_capex a = Math_max (Fin 12000000) (js_mul (est_biogas_m3 a) (Fin 1200000))"

definition est_payback_months :: "'a estimate_args_scheme \<Rightarrow> number" where
  "est_payback_months a =
     (if js_gt (est_monthly_saving a) (Fin 0)
      then js_div (est_capex a) (est_monthly_saving a)
      else PInf)"

definition est_co2_kg_per_day :: "'a estimate_args_scheme \<Rightarrow> number" where
  "est_co2_kg_per_day a = js_mul (est_biogas_m3 a) (binary64 (19 / 10))"

definition estimate :: "'a estimate_args_scheme \<Rightarrow> estimate_result" where
  "estimate a =
     \<lparr>feedstock = label (est_fs a),
      biogas_m3 = round_js (est_biogas_m3 a) 2,
      thermal_kwh = round_js (est_thermal_kwh a) 1,
      electric_kwh = round_js (est_electric_kwh a) 1,
      monthly_saving = Math_round (est_monthly_saving a),
      capex = Math_round (est_capex a),
      payback_months =
        (if est_payback_months a = PInf then None
         else Some (round_js (est_payback_months a) 1)),
      co2_kg_per_day = round_js (est_co2_kg_per_day a) 1\<rparr>"

text \<open>
  The component calls \<^verbatim>\<open>estimate(calc)\<close> on the state of the form, which starts
  with these values (\<^verbatim>\<open>useState\<close> in \<^verbatim>\<open>BioGazStartupLanding\<close>).
\<close>

definition initial_calc :: estimate_args where
  "initial_calc =
     \<lparr>feedstockKey = ''cattle'', kgPerDay = Fin 600,
      gasPriceUZS = Some (Fin 1800), electricityPriceUZS = Some (Fin 450)\<rparr>"

subsection \<open>\<^verbatim>\<open>chartData\<close>\<close>

record chart_point =
  month :: nat
  cum :: number

text \<open>
  \<^verbatim>\<open>Array.from({ length: 12 }, (_, i) => ...)\<close> calls the function at \<open>i = 0, ..., 11\<close>
  in this order; the function updates the variable \<^verbatim>\<open>cum\<close> of the enclosing scope,
  which is the state passed along here.
\<close>

fun chart_from :: "number \<Rightarrow> number \<Rightarrow> nat list \<Rightarrow> chart_point list" where
  "chart_from m c [] = []"
| "chart_from m c (i # is) =
     (let c' = js_add c m
      in \<lparr>month = i + 1, cum = Math_round c'\<rparr> # chart_from m c' is)"

definition chartData :: "estimate_result \<Rightarrow> chart_point list" where
  "chartData result =
     (let capex0 = js_or (capex result) (Fin 0);
          m = js_or (monthly_saving result) (Fin 0);
          cum0 = js_neg capex0
      in chart_from m cum0 [0 ..< 12])"

subsection \<open>Sample inputs\<close>

text \<open>
  Argument objects and result objects at which the functions are evaluated below.
\<close>

definition tiny_calc :: estimate_args where
  "tiny_calc = \<lparr>feedstockKey = ''cattle'', kgPerDay = binary64 (1 / 10000),
                  gasPriceUZS = Some (Fin 1800), electricityPriceUZS = Some (Fin 450)\<rparr>"

definition huge_calc :: estimate_args where
  "huge_calc = \<lparr>feedstockKey = ''cattle'', kgPerDay = Fin 1152921504606846976,
                  gasPriceUZS = Some (Fin 1800), electricityPriceUZS = Some (Fin 450)\<rparr>"

definition large_calc :: estimate_args where
  "large_calc = \<lparr>feedstockKey = ''cattle'', kgPerDay = Fin 1000000000001,
                  gasPriceUZS = Some (Fin 1800), electricityPriceUZS = Some (Fin 450)\<rparr>"

definition priced_calc :: estimate_args where
  "priced_calc = \<lparr>feedstockKey = ''cattle'', kgPerDay = Fin 335,
                    gasPriceUZS = Some (Fin 64), electricityPriceUZS = Some (Fin 608)\<rparr>"

definition sample_result :: "number \<Rightarrow> number \<Rightarrow> estimate_result" where
  "sample_result c s =
     \<lparr>feedstock = '''', biogas_m3 = Fin 0, thermal_kwh = Fin 0, electric_kwh = Fin 0,
      monthly_saving = s, capex = c, payback_months = None, co2_kg_per_day = Fin 0\<rparr>"

section \<open>Facts about the rounding\<close>

lemma powi_nat: "0 \<le> k \<Longrightarrow> (2::rat) powi k = 2 ^ nat k"
  by (simp add: power_int_def)

lemma powi_pos: "0 < (2::rat) powi k"
  by (simp add: zero_less_power_int)

lemma powi_le_iff: "(2::rat) powi a \<le> 2 powi b \<longleftrightarrow> a \<le> b"
proof
  assume le: "(2::rat) powi a \<le> 2 powi b"
  show "a \<le> b"
  proof (rule ccontr)
    assume "\<not> a \<le> b"
    then have "b < a" by simp
    then have "(2::rat) powi b < 2 powi a"
      by (rule power_int_strict_increasing) simp
    with le show False by simp
  qed
next
  assume "a \<le> b"
  then show "(2::rat) powi a \<le> 2 powi b"
    by (rule power_int_increasing) simp
qed

lemma powi_less_iff: "(2::rat) powi a < 2 powi b \<longleftrightarrow> a < b"
  using powi_le_iff [of b a] by (simp add: not_le [symmetric])

lemma powi_Suc: "(2::rat) powi (k + 1) = 2 * 2 powi k"
  by (simp add: power_int_add_1')

lemma powi_add: "(2::rat) powi (a + b) = 2 powi a * 2 powi b"
  by (simp add: power_int_add)

lemma powi_diff: "(2::rat) powi (a - b) = 2 powi a / 2 powi b"
  by (simp add: power_int_diff)

subsection \<open>The exponent\<close>

lemma ilog2_ge1:
  assumes "1 \<le> x"
  shows "2 powi (ilog2 x) \<le> x" and "x < 2 powi (ilog2 x + 1)"
proof -
  define n where "n = \<lfloor>x\<rfloor>"
  have n1: "1 \<le> n" using assms by (simp add: n_def)
  then have n0: "0 < n" by simp
  have b1: "1 \<le> bitlen n"
    using n1 by (simp add: bitlen_ge_iff_power)
  have lo: "2 ^ nat (bitlen n - 1) \<le> n" and hi: "n < 2 ^ nat (bitlen n)"
    using bitlen_bounds [OF n0] by simp_all
  have k: "ilog2 x = bitlen n - 1"
    using assms by (simp add: ilog2_def n_def)
  have "(2::rat) powi (bitlen n - 1) = of_int (2 ^ nat (bitlen n - 1))"
    using b1 by (simp add: powi_nat)
  also have "\<dots> \<le> of_int n"
    using lo by (simp only: of_int_le_iff)
  also have "\<dots> \<le> x"
    by (simp add: n_def)
  finally show "2 powi (ilog2 x) \<le> x"
    by (simp only: k)
  have "n + 1 \<le> 2 ^ nat (bitlen n)"
    using hi by simp
  then have le: "(of_int (n + 1) :: rat) \<le> of_int (2 ^ nat (bitlen n))"
    by (simp only: of_int_le_iff)
  have "x < of_int (n + 1)"
    unfolding n_def by linarith
  also note le
  also have "of_int (2 ^ nat (bitlen n)) = (2::rat) powi (bitlen n - 1 + 1)"
    using b1 by (simp add: powi_nat)
  finally show "x < 2 powi (ilog2 x + 1)"
    by (simp only: k)
qed

lemma ilog2_less1:
  assumes "0 < x" and "x < 1"
  shows "2 powi (ilog2 x) \<le> x" and "x < 2 powi (ilog2 x + 1)"
proof -
  define M where "M = \<lceil>1 / x\<rceil> - 1"
  have y1: "1 < 1 / x" using assms by simp
  then have "1 < \<lceil>1 / x\<rceil>" by (simp only: one_less_ceiling)
  then have M1: "1 \<le> M" by (simp add: M_def)
  then have M0: "0 < M" by simp
  have b1: "1 \<le> bitlen M"
    using M1 by (simp add: bitlen_ge_iff_power)
  have lo: "2 ^ nat (bitlen M - 1) \<le> M" and hi: "M < 2 ^ nat (bitlen M)"
    using bitlen_bounds [OF M0] by simp_all
  have k: "ilog2 x = - bitlen M"
    using assms by (simp add: ilog2_def M_def)
  have "M + 1 \<le> 2 ^ nat (bitlen M)"
    using hi by simp
  then have le: "(of_int (M + 1) :: rat) \<le> of_int (2 ^ nat (bitlen M))"
    by (simp only: of_int_le_iff)
  have "1 / x \<le> of_int (M + 1)"
    by (simp add: M_def)
  also note le
  also have "of_int (2 ^ nat (bitlen M)) = (2::rat) powi (bitlen M)"
    using b1 by (simp add: powi_nat)
  finally have "1 / x \<le> 2 powi (bitlen M)" .
  then have "1 \<le> 2 powi (bitlen M) * x"
    using assms(1) by (simp add: field_simps)
  then have "1 / 2 powi (bitlen M) \<le> x"
    using powi_pos [of "bitlen M"] by (simp add: field_simps)
  then show "2 powi (ilog2 x) \<le> x"
    by (simp only: k power_int_minus_divide)
  have "(2::rat) powi (bitlen M - 1) = of_int (2 ^ nat (bitlen M - 1))"
    using b1 by (simp add: powi_nat)
  also have "\<dots> \<le> of_int M"
    using lo by (simp only: of_int_le_iff)
  also have "\<dots> < 1 / x"
    unfolding M_def using ceiling_correct [of "1 / x"] by simp
  finally have "2 powi (bitlen M - 1) < 1 / x" .
  then have "2 powi (bitlen M - 1) * x < 1"
    using assms(1) by (simp add: field_simps)
  then have "x < 1 / 2 powi (bitlen M - 1)"
    using powi_pos [of "bitlen M - 1"] by (simp add: field_simps)
  also have "\<dots> = 2 powi (- (bitlen M - 1))"
    by (simp only: power_int_minus_divide)
  also have "- (bitlen M - 1) = ilog2 x + 1"
    by (simp add: k)
  finally show "x < 2 powi (ilog2 x + 1)" .
qed

lemma ilog2_bounds:
  assumes "0 < x"
  shows "2 powi (ilog2 x) \<le> x" and "x < 2 powi (ilog2 x + 1)"
  using assms ilog2_ge1 [of x] ilog2_less1 [of x] by (cases "1 \<le> x"; simp)+

lemma ilog2_le:
  assumes "0 < x" and "x \<le> 2 powi k"
  shows "ilog2 x \<le> k"
proof -
  have "(2::rat) powi (ilog2 x) \<le> 2 powi k"
    using ilog2_bounds(1) [OF assms(1)] assms(2) by (rule order_trans)
  then show ?thesis by (simp only: powi_le_iff)
qed

lemma ilog2_ge:
  assumes "2 powi k \<le> x"
  shows "k \<le> ilog2 x"
proof -
  have x: "0 < x" using powi_pos [of k] assms by (rule less_le_trans)
  have "(2::rat) powi k < 2 powi (ilog2 x + 1)"
    using assms ilog2_bounds(2) [OF x] by (rule le_less_trans)
  then show ?thesis by (simp add: powi_less_iff)
qed

subsection \<open>The significand\<close>

lemma round_half_even_error: "\<bar>of_int (round_half_even y) - y\<bar> \<le> 1 / 2"
proof -
  have "of_int \<lfloor>y\<rfloor> \<le> y" and "y < of_int \<lfloor>y\<rfloor> + 1"
    by linarith+
  then show ?thesis
    by (auto simp: round_half_even_def Let_def)
qed

lemma round_half_even_of_int: "round_half_even (of_int n) = n"
  by (simp add: round_half_even_def)

lemma round_half_even_ge:
  assumes "of_int N \<le> y"
  shows "N \<le> round_half_even y"
proof -
  have "N \<le> \<lfloor>y\<rfloor>" using assms by (simp add: le_floor_iff)
  then show ?thesis by (auto simp: round_half_even_def Let_def)
qed

lemma round_half_even_le:
  assumes "y \<le> of_int N"
  shows "round_half_even y \<le> N"
proof (cases "y = of_int N")
  case True
  then show ?thesis by (simp add: round_half_even_of_int)
next
  case False
  with assms have "y < of_int N" by simp
  then have "\<lfloor>y\<rfloor> < N" by (simp add: floor_less_iff)
  then show ?thesis by (auto simp: round_half_even_def Let_def)
qed

subsection \<open>The rounded value\<close>

lemma binary64_zero: "binary64 0 = Fin 0"
  by (simp add: binary64_def)

lemma binary64_not_NaN: "binary64 x \<noteq> NaN"
  by (simp add: binary64_def Let_def)

lemma binary64_split:
  assumes "x \<noteq> 0"
  obtains E m where "E = max (ilog2 \<bar>x\<bar>) (- 1022)"
    and "m = round_half_even (x / 2 powi (E - 52))"
    and "binary64 x =
      (if 1023 < E \<or> (E = 1023 \<and> \<bar>m\<bar> = 2 ^ 53)
       then (if 0 < x then PInf else NInf)
       else Fin (of_int m * 2 powi (E - 52)))"
  using assms by (simp add: binary64_def Let_def)

lemma significand_error:
  "\<bar>of_int (round_half_even (x / 2 powi e)) * 2 powi e - x\<bar> \<le> 2 powi e / 2"
proof -
  define p :: rat where "p = 2 powi e"
  have p: "0 < p" by (simp add: p_def powi_pos)
  define m where "m = round_half_even (x / p)"
  have "\<bar>of_int m - x / p\<bar> * p = \<bar>(of_int m - x / p) * p\<bar>"
    using p by (simp add: abs_mult)
  also have "(of_int m - x / p) * p = of_int m * p - x"
    using p by (simp add: field_simps)
  finally have eq: "\<bar>of_int m - x / p\<bar> * p = \<bar>of_int m * p - x\<bar>" .
  have "\<bar>of_int m - x / p\<bar> \<le> 1 / 2"
    unfolding m_def by (rule round_half_even_error)
  then have "\<bar>of_int m - x / p\<bar> * p \<le> 1 / 2 * p"
    using p by (simp only: mult_le_cancel_right_pos)
  then have "\<bar>of_int m * p - x\<bar> \<le> p / 2"
    unfolding eq by simp
  then show ?thesis
    by (simp only: m_def p_def)
qed

lemma significand_bound:
  assumes "\<bar>x\<bar> \<le> 2 powi k" and "e \<le> k"
  shows "\<bar>of_int (round_half_even (x / 2 powi e)) * (2::rat) powi e\<bar> \<le> 2 powi k"
proof -
  define p :: rat where "p = 2 powi e"
  have p: "0 < p" by (simp add: p_def powi_pos)
  define N :: int where "N = 2 ^ nat (k - e)"
  have "(2::rat) powi (k - e) = 2 ^ nat (k - e)"
    using assms(2) by (simp add: powi_nat)
  then have N: "of_int N = 2 powi k / p"
    by (simp add: N_def p_def powi_diff)
  define m where "m = round_half_even (x / p)"
  have "\<bar>x\<bar> / p \<le> 2 powi k / p"
    using assms(1) p by (simp only: divide_right_mono less_imp_le)
  moreover have "\<bar>x / p\<bar> = \<bar>x\<bar> / p"
    using p by (simp add: abs_divide)
  ultimately have y: "\<bar>x / p\<bar> \<le> of_int N"
    by (simp only: N)
  have "x / p \<le> of_int N"
    using y by linarith
  then have le: "m \<le> N"
    unfolding m_def by (rule round_half_even_le)
  have "- of_int N \<le> x / p"
    using y by linarith
  then have "of_int (- N) \<le> x / p"
    by simp
  then have ge: "- N \<le> m"
    unfolding m_def by (rule round_half_even_ge)
  from le ge have "\<bar>m\<bar> \<le> N" by simp
  then have "(of_int \<bar>m\<bar> :: rat) \<le> of_int N"
    by (simp only: of_int_le_iff)
  then have "\<bar>of_int m :: rat\<bar> \<le> of_int N"
    by simp
  then have "\<bar>of_int m\<bar> * p \<le> of_int N * p"
    using p by (simp only: mult_le_cancel_right_pos)
  moreover have "\<bar>of_int m * p\<bar> = \<bar>of_int m\<bar> * p"
    using p by (simp add: abs_mult)
  moreover have "of_int N * p = 2 powi k"
    using p by (simp add: N)
  ultimately have "\<bar>of_int m * p\<bar> \<le> 2 powi k"
    by simp
  then show ?thesis
    by (simp only: m_def p_def)
qed

lemma binary64_finite:
  assumes "\<bar>x\<bar> \<le> 2 ^ k" and "k \<le> 1023"
  shows "\<exists>r. binary64 x = Fin r \<and> \<bar>r\<bar> \<le> 2 ^ k"
proof (cases "x = 0")
  case True
  then show ?thesis by (simp add: binary64_zero)
next
  case False
  then obtain E m where E: "E = max (ilog2 \<bar>x\<bar>) (- 1022)"
    and m: "m = round_half_even (x / 2 powi (E - 52))"
    and b: "binary64 x =
      (if 1023 < E \<or> (E = 1023 \<and> \<bar>m\<bar> = 2 ^ 53)
       then (if 0 < x then PInf else NInf)
       else Fin (of_int m * 2 powi (E - 52)))"
    by (rule binary64_split)
  have xk: "\<bar>x\<bar> \<le> 2 powi (int k)"
    using assms(1) by (simp only: power_int_of_nat)
  have "ilog2 \<bar>x\<bar> \<le> int k"
    using False xk by (intro ilog2_le) simp_all
  then have Ek: "E \<le> int k" by (simp add: E)
  then have "E - 52 \<le> int k" by simp
  with xk have r: "\<bar>of_int m * (2::rat) powi (E - 52)\<bar> \<le> 2 powi (int k)"
    unfolding m by (rule significand_bound)
  have "\<not> (1023 < E \<or> (E = 1023 \<and> \<bar>m\<bar> = 2 ^ 53))"
  proof
    assume "1023 < E \<or> (E = 1023 \<and> \<bar>m\<bar> = 2 ^ 53)"
    with Ek assms(2) have E1: "E = 1023" and m1: "\<bar>m\<bar> = 2 ^ 53" by auto
    have k: "int k = 1023" using Ek E1 assms(2) by simp
    have "\<bar>of_int m * (2::rat) powi (E - 52)\<bar> = \<bar>of_int m\<bar> * 2 powi (E - 52)"
      using powi_pos [of "E - 52"] by (simp only: abs_mult abs_of_pos)
    also have "\<bar>of_int m :: rat\<bar> = of_int \<bar>m\<bar>" by simp
    also have "(of_int \<bar>m\<bar> :: rat) = 2 powi 53"
      by (simp only: m1) (simp add: power_int_def)
    also have "(2::rat) powi 53 * 2 powi (E - 52) = 2 powi (53 + (E - 52))"
      by (simp only: powi_add)
    also have "53 + (E - 52) = int k + 1"
      by (simp add: E1 k)
    finally have "(2::rat) powi (int k + 1) \<le> 2 powi (int k)"
      using r by (simp only:)
    then have "int k + 1 \<le> int k" by (simp only: powi_le_iff)
    then show False by simp
  qed
  with b r show ?thesis
    by (simp only: power_int_of_nat if_False) blast
qed

lemma binary64_PInf_D:
  assumes "binary64 x = PInf"
  shows "2 ^ 1023 < x"
proof (rule ccontr)
  assume n: "\<not> 2 ^ 1023 < x"
  have x: "0 < x"
    using assms by (auto simp: binary64_def Let_def split: if_splits)
  with n have "\<bar>x\<bar> \<le> 2 ^ 1023" by (simp only: abs_of_pos not_less)
  then obtain r where "binary64 x = Fin r"
    using binary64_finite [of x 1023] by auto
  with assms show False by simp
qed

lemma binary64_nonneg:
  assumes "0 \<le> x"
  shows "binary64 x = PInf \<or> (\<exists>r. binary64 x = Fin r \<and> 0 \<le> r)"
proof (cases "x = 0")
  case True
  then show ?thesis by (simp add: binary64_zero)
next
  case False
  then obtain E m where m: "m = round_half_even (x / 2 powi (E - 52))"
    and b: "binary64 x =
      (if 1023 < E \<or> (E = 1023 \<and> \<bar>m\<bar> = 2 ^ 53)
       then (if 0 < x then PInf else NInf)
       else Fin (of_int m * 2 powi (E - 52)))"
    by (rule binary64_split)
  have "of_int 0 \<le> x / 2 powi (E - 52)"
    using assms powi_pos [of "E - 52"] by simp
  then have "0 \<le> m"
    unfolding m by (rule round_half_even_ge)
  then have "0 \<le> of_int m * (2::rat) powi (E - 52)"
    using powi_pos [of "E - 52"] by simp
  with b assms False show ?thesis by auto
qed

text \<open>Integers up to \<open>2 ^ 53\<close> are binary64 numbers: rounding leaves them as they are.\<close>

lemma binary64_of_int:
  assumes "\<bar>n\<bar> \<le> 2 ^ 53"
  shows "binary64 (of_int n) = Fin (of_int n)"
proof (cases "n = 0")
  case True
  then show ?thesis by (simp add: binary64_zero)
next
  case False
  then have x0: "(of_int n :: rat) \<noteq> 0" by simp
  then obtain E m where E: "E = max (ilog2 \<bar>of_int n\<bar>) (- 1022)"
    and m: "m = round_half_even (of_int n / 2 powi (E - 52))"
    and b: "binary64 (of_int n) =
      (if 1023 < E \<or> (E = 1023 \<and> \<bar>m\<bar> = 2 ^ 53)
       then (if 0 < (of_int n :: rat) then PInf else NInf)
       else Fin (of_int m * 2 powi (E - 52)))"
    by (rule binary64_split)
  have p53: "(2::rat) powi 53 = of_int (2 ^ 53)"
    by (simp add: power_int_def)
  have "(of_int \<bar>n\<bar> :: rat) \<le> of_int (2 ^ 53)"
    using assms by (simp only: of_int_le_iff)
  then have up: "\<bar>of_int n :: rat\<bar> \<le> 2 powi 53"
    by (simp only: p53 of_int_abs)
  have "1 \<le> \<bar>n\<bar>" using False by simp
  then have "(of_int 1 :: rat) \<le> of_int \<bar>n\<bar>"
    by (simp only: of_int_le_iff)
  then have lo: "(2::rat) powi 0 \<le> \<bar>of_int n\<bar>"
    by simp
  have E0: "0 \<le> ilog2 \<bar>of_int n\<bar>"
    using lo by (rule ilog2_ge)
  have E53: "ilog2 \<bar>of_int n\<bar> \<le> 53"
    using x0 up by (intro ilog2_le) simp_all
  from E0 have El: "E = ilog2 \<bar>of_int n\<bar>" by (simp add: E)
  have r: "of_int m * (2::rat) powi (E - 52) = of_int n"
  proof (cases "E \<le> 52")
    case True
    define j where "j = nat (52 - E)"
    have "E - 52 = - int j" using True by (simp add: j_def)
    then have p: "(2::rat) powi (E - 52) = 1 / 2 ^ j"
      by (simp only: power_int_minus_divide power_int_of_nat)
    have "of_int n / (2::rat) powi (E - 52) = of_int (n * 2 ^ j)"
      by (simp add: p)
    then have "m = n * 2 ^ j"
      by (simp only: m round_half_even_of_int)
    then show ?thesis by (simp add: p)
  next
    case False
    with E53 El have E1: "E = 53" by simp
    have "(2::rat) powi 53 \<le> \<bar>of_int n\<bar>"
      using ilog2_bounds(1) [of "\<bar>of_int n\<bar>"] x0 El E1 by simp
    with up have "\<bar>of_int n :: rat\<bar> = 2 powi 53" by (rule order_antisym)
    then have "(of_int \<bar>n\<bar> :: rat) = of_int (2 ^ 53)"
      by (simp only: p53 of_int_abs)
    then have "\<bar>n\<bar> = 2 ^ 53"
      by (simp only: of_int_eq_iff)
    then have "n = 2 * 2 ^ 52 \<or> n = 2 * (- (2 ^ 52))"
      by (simp add: abs_if split: if_splits)
    then obtain h where h: "n = 2 * h" by blast
    have "of_int n / (2::rat) powi (E - 52) = of_int h"
      by (simp add: E1 h)
    then have "m = h"
      by (simp only: m round_half_even_of_int)
    then show ?thesis by (simp add: E1 h)
  qed
  have "\<not> (1023 < E \<or> (E = 1023 \<and> \<bar>m\<bar> = 2 ^ 53))"
    using E53 El by simp
  with b r show ?thesis
    by (simp only: if_False)
qed

text \<open>
  The rounding error is half a unit in the last place: at most \<open>\<bar>x\<bar> / 2 ^ 53\<close> for a
  normal result and \<open>1 / 2 ^ 1075\<close> for a subnormal one.
\<close>

lemma binary64_error:
  assumes "binary64 x = Fin r"
  shows "\<bar>r - x\<bar> \<le> \<bar>x\<bar> / 2 ^ 53 + 1 / 2 ^ 1075"
proof (cases "x = 0")
  case True
  with assms show ?thesis by (simp add: binary64_zero)
next
  case False
  then obtain E m where E: "E = max (ilog2 \<bar>x\<bar>) (- 1022)"
    and m: "m = round_half_even (x / 2 powi (E - 52))"
    and b: "binary64 x =
      (if 1023 < E \<or> (E = 1023 \<and> \<bar>m\<bar> = 2 ^ 53)
       then (if 0 < x then PInf else NInf)
       else Fin (of_int m * 2 powi (E - 52)))"
    by (rule binary64_split)
  from b assms have r: "r = of_int m * 2 powi (E - 52)"
    by (auto split: if_splits)
  have "\<bar>r - x\<bar> \<le> 2 powi (E - 52) / 2"
    unfolding r m by (rule significand_error)
  also have "(2::rat) powi (E - 52) / 2 = 2 powi (E - 53)"
    using powi_Suc [of "E - 53"] by simp
  finally have half: "\<bar>r - x\<bar> \<le> 2 powi (E - 53)" .
  have q: "0 \<le> (1::rat) / 2 ^ 1075" and a: "0 \<le> \<bar>x\<bar> / 2 ^ 53"
    by simp_all
  show ?thesis
  proof (cases "- 1022 \<le> ilog2 \<bar>x\<bar>")
    case True
    then have "E = ilog2 \<bar>x\<bar>" by (simp add: E)
    then have "2 powi E \<le> \<bar>x\<bar>"
      using ilog2_bounds(1) [of "\<bar>x\<bar>"] False by simp
    then have "2 powi E / 2 ^ 53 \<le> \<bar>x\<bar> / 2 ^ 53"
      by (simp only: divide_right_mono zero_le_power zero_le_numeral)
    moreover have "(2::rat) powi (E - 53) = 2 powi E / 2 powi 53"
      by (simp only: powi_diff)
    moreover have "(2::rat) powi 53 = 2 ^ 53"
      by (simp only: power_int_numeral)
    ultimately have "\<bar>r - x\<bar> \<le> \<bar>x\<bar> / 2 ^ 53"
      using half by (simp only:) 
    with q show ?thesis by linarith
  next
    case False
    then have "E - 53 = - 1075" by (simp add: E)
    then have "(2::rat) powi (E - 53) = 1 / 2 powi 1075"
      by (simp only: power_int_minus_divide)
    moreover have "(2::rat) powi 1075 = 2 ^ 1075"
      by (simp only: power_int_numeral)
    ultimately have "\<bar>r - x\<bar> \<le> 1 / 2 ^ 1075"
      using half by (simp only:)
    with a show ?thesis by linarith
  qed
qed

section \<open>Facts about the operators\<close>

lemma floor_rat_one_half: "\<lfloor>1 / 2 :: rat\<rfloor> = 0"
  by (simp add: floor_eq_iff)

lemma floor_half_nonpos:
  fixes s :: rat
  assumes "s \<le> 0"
  shows "\<lfloor>s + 1 / 2\<rfloor> \<le> 0"
proof -
  have "s + 1 / 2 < 1" using assms by simp
  then have "\<lfloor>s + 1 / 2\<rfloor> < 1" by (simp add: floor_less_iff)
  then show ?thesis by simp
qed

lemma floor_half_small:
  fixes s :: rat
  assumes "0 \<le> s" and "s < 1 / 2"
  shows "\<lfloor>s + 1 / 2\<rfloor> = 0"
  using assms by (simp add: floor_eq_iff)

lemma Math_round_of_int: "Math_round (Fin (of_int n)) = Fin (of_int n)"
proof -
  have "\<lfloor>(of_int n :: rat) + 1 / 2\<rfloor> = n"
    by (simp add: floor_eq_iff)
  then show ?thesis by simp
qed

lemma Math_round_Ints: "x \<in> \<int> \<Longrightarrow> Math_round (Fin x) = Fin x"
  using Math_round_of_int by (auto elim: Ints_cases)

lemma Math_round_Fin_D:
  assumes "Math_round x = Fin c"
  shows "\<exists>c'. x = Fin c' \<and> c = of_int \<lfloor>c' + 1 / 2\<rfloor>"
  using assms by (cases x) auto

lemma round_js_zero: "round_js (Fin 0) d = Fin 0"
  by (simp add: round_js_def binary64_zero floor_rat_one_half)

lemma Math_max_zero_nonpos: "js_le x (Fin 0) \<Longrightarrow> Math_max (Fin 0) x = Fin 0"
  by (cases x) auto

lemma Math_max_zero_Fin: "Math_max (Fin 0) (Fin q) = Fin (max 0 q)"
  by (simp add: max_def)

lemma js_le_Math_max: "y \<noteq> NaN \<Longrightarrow> js_le (Fin c) (Math_max (Fin c) y)"
  by (cases y) auto

lemma js_le_Math_round:
  assumes "js_le (Fin c) x" and "c \<in> \<int>"
  shows "js_le (Fin c) (Math_round x)"
proof (cases x)
  case (Fin q)
  obtain k :: int where k: "c = of_int k" and le: "of_int k \<le> q"
    using assms Fin by (auto elim: Ints_cases)
  have "k \<le> \<lfloor>q + 1 / 2\<rfloor>"
    using le by (simp add: le_floor_iff)
  then have "(of_int k :: rat) \<le> of_int \<lfloor>q + 1 / 2\<rfloor>"
    by (simp only: of_int_le_iff)
  then show ?thesis using Fin k by simp
qed (use assms in simp_all)

lemma js_mul_pos_not_NaN: "x \<noteq> NaN \<Longrightarrow> 0 < c \<Longrightarrow> js_mul x (Fin c) \<noteq> NaN"
  by (cases x) (auto simp: binary64_not_NaN)

lemma js_mul_zero_not_gt:
  "\<not> js_gt (js_mul (js_add (js_mul (Fin 0) x) (js_mul (Fin 0) y)) (Fin 30)) (Fin 0)"
  by (cases x; cases y) (auto simp: binary64_zero)

lemma js_or_Fin_zero: "js_or (Fin x) (Fin 0) = Fin x"
  by simp

text \<open>Sums and products of whole numbers are exact while they stay within \<open>2 ^ 53\<close>.\<close>

lemma js_add_of_int:
  assumes "\<bar>a + b\<bar> \<le> 2 ^ 53"
  shows "js_add (Fin (of_int a)) (Fin (of_int b)) = Fin (of_int (a + b))"
  using binary64_of_int [OF assms] by simp

text \<open>The literals of the source that are not whole numbers.\<close>

lemma literal_0_03: "binary64 (3 / 100) = Fin (1080863910568919 / 36028797018963968)"
  by code_simp

lemma literal_0_06: "binary64 (3 / 50) = Fin (1080863910568919 / 18014398509481984)"
  by code_simp

lemma literal_0_09: "binary64 (9 / 100) = Fin (3242591731706757 / 36028797018963968)"
  by code_simp

lemma literal_0_05: "binary64 (1 / 20) = Fin (3602879701896397 / 72057594037927936)"
  by code_simp

lemma literal_1_9: "binary64 (19 / 10) = Fin (4278419646001971 / 2251799813685248)"
  by code_simp

section \<open>Facts about the local constants of \<open>estimate\<close>\<close>

lemmas est_defs =
  est_fs_def est_biogas_m3_def est_thermal_kwh_def est_electric_kwh_def
  est_monthly_saving_def est_capex_def est_payback_months_def est_co2_kg_per_day_def
  est_gasPriceUZS_def est_electricityPriceUZS_def

lemma FEEDSTOCK_keys: "map key FEEDSTOCK = [''cattle'', ''poultry'', ''food'', ''mixed'']"
  by (simp add: FEEDSTOCK_def)

lemma FEEDSTOCK_factors:
  "map factor_m3_per_kg FEEDSTOCK
     = [binary64 (3 / 100), binary64 (6 / 100), binary64 (9 / 100), binary64 (5 / 100)]"
  by (simp add: FEEDSTOCK_def)

text \<open>
  Every factor of the catalog is a positive number below \<open>1/8\<close>, within \<open>10\<^sup>-\<^sup>1\<^sup>7\<close> of
  the decimal fraction that the source writes.
\<close>

lemma catalog_factor:
  assumes "x \<in> set FEEDSTOCK"
  shows "\<exists>f r. f \<in> {3 / 100, 6 / 100, 9 / 100, 5 / 100} \<and> factor_m3_per_kg x = binary64 f
    \<and> factor_m3_per_kg x = Fin r \<and> 0 < r \<and> r \<le> 1 / 8 \<and> \<bar>r - f\<bar> \<le> 1 / 10 ^ 17"
proof -
  have "factor_m3_per_kg x \<in> set (map factor_m3_per_kg FEEDSTOCK)"
    using assms by simp
  then consider "factor_m3_per_kg x = binary64 (3 / 100)"
    | "factor_m3_per_kg x = binary64 (6 / 100)"
    | "factor_m3_per_kg x = binary64 (9 / 100)"
    | "factor_m3_per_kg x = binary64 (5 / 100)"
    unfolding FEEDSTOCK_factors by auto
  then show ?thesis
  proof cases
    case 1
    have "\<bar>1080863910568919 / 36028797018963968 - 3 / 100 :: rat\<bar> \<le> 1 / 10 ^ 17"
      by simp
    with 1 show ?thesis
      apply (rule_tac x = "3 / 100" in exI)
      apply (rule_tac x = "1080863910568919 / 36028797018963968" in exI)
      apply (simp add: literal_0_03)
      done
  next
    case 2
    have "\<bar>1080863910568919 / 18014398509481984 - 6 / 100 :: rat\<bar> \<le> 1 / 10 ^ 17"
      by simp
    with 2 show ?thesis
      apply (rule_tac x = "6 / 100" in exI)
      apply (rule_tac x = "1080863910568919 / 18014398509481984" in exI)
      apply (simp add: literal_0_06)
      done
  next
    case 3
    have "\<bar>3242591731706757 / 36028797018963968 - 9 / 100 :: rat\<bar> \<le> 1 / 10 ^ 17"
      by simp
    with 3 show ?thesis
      apply (rule_tac x = "9 / 100" in exI)
      apply (rule_tac x = "3242591731706757 / 36028797018963968" in exI)
      apply (simp add: literal_0_09)
      done
  next
    case 4
    have "\<bar>3602879701896397 / 72057594037927936 - 5 / 100 :: rat\<bar> \<le> 1 / 10 ^ 17"
      by simp
    with 4 show ?thesis
      apply (rule_tac x = "5 / 100" in exI)
      apply (rule_tac x = "3602879701896397 / 72057594037927936" in exI)
      apply (simp add: literal_0_05)
      done
  qed
qed

lemma est_fs_cases:
  "est_fs a = FEEDSTOCK ! 0 \<or> est_fs a = FEEDSTOCK ! 1
   \<or> est_fs a = FEEDSTOCK ! 2 \<or> est_fs a = FEEDSTOCK ! 3"
  by (simp add: est_fs_def FEEDSTOCK_def)

lemma est_fs_in_catalog: "est_fs a \<in> set FEEDSTOCK"
proof -
  have len: "length FEEDSTOCK = 4"
    by (simp add: FEEDSTOCK_def)
  have "FEEDSTOCK ! i \<in> set FEEDSTOCK" if "i < 4" for i
    using that len by simp
  then show ?thesis
    using est_fs_cases [of a] by auto
qed

lemma est_fs_factor_pos: "\<exists>f. factor_m3_per_kg (est_fs a) = Fin f \<and> 0 < f \<and> f \<le> 1 / 8"
  using catalog_factor [OF est_fs_in_catalog [of a]] by blast

lemma est_fs_unknown:
  "feedstockKey a \<notin> set (map key FEEDSTOCK) \<Longrightarrow> est_fs a = FEEDSTOCK ! 0"
  by (auto simp: est_fs_def FEEDSTOCK_def)

lemma find_by_key:
  "distinct (map key ps) \<Longrightarrow> x \<in> set ps \<Longrightarrow> find (\<lambda>y. key y = key x) ps = Some x"
  by (induction ps) auto

lemma est_fs_known:
  assumes "x \<in> set FEEDSTOCK" and "feedstockKey a = key x"
  shows "est_fs a = x"
proof -
  have "distinct (map key FEEDSTOCK)"
    by (simp add: FEEDSTOCK_keys)
  then have "find (\<lambda>y. key y = key x) FEEDSTOCK = Some x"
    using assms(1) by (rule find_by_key)
  then show ?thesis
    by (simp add: est_fs_def assms(2))
qed

lemma est_biogas_m3_not_NaN: "kgPerDay a \<noteq> NaN \<Longrightarrow> est_biogas_m3 a \<noteq> NaN"
  using est_fs_factor_pos [of a]
  by (cases "kgPerDay a") (auto simp: est_biogas_m3_def binary64_not_NaN binary64_zero)

lemma est_biogas_m3_nonpos:
  assumes "js_le (kgPerDay a) (Fin 0)"
  shows "est_biogas_m3 a = Fin 0"
proof -
  obtain f where "factor_m3_per_kg (est_fs a) = Fin f"
    using est_fs_factor_pos by blast
  then show ?thesis
    using assms by (simp add: est_biogas_m3_def Math_max_zero_nonpos binary64_zero)
qed

lemma payback_null_iff:
  "payback_months (estimate a) = None \<longleftrightarrow> est_payback_months a = PInf"
  by (simp add: estimate_def)

subsection \<open>Bounds\<close>

lemma js_mul_bounded:
  assumes "\<bar>a\<bar> \<le> 2 ^ i" and "\<bar>b\<bar> \<le> 2 ^ j" and "i + j \<le> 1023"
  shows "\<exists>r. js_mul (Fin a) (Fin b) = Fin r \<and> \<bar>r\<bar> \<le> 2 ^ (i + j)"
proof -
  have "\<bar>a\<bar> * \<bar>b\<bar> \<le> 2 ^ i * 2 ^ j"
    using assms(1,2) by (intro mult_mono) simp_all
  then have "\<bar>a * b\<bar> \<le> 2 ^ (i + j)"
    by (simp only: abs_mult power_add)
  then show ?thesis
    using assms(3) by (simp add: binary64_finite)
qed

lemma js_add_bounded:
  assumes "\<bar>a\<bar> \<le> 2 ^ i" and "\<bar>b\<bar> \<le> 2 ^ i" and "i < 1023"
  shows "\<exists>r. js_add (Fin a) (Fin b) = Fin r \<and> \<bar>r\<bar> \<le> 2 ^ Suc i"
proof -
  have "\<bar>a + b\<bar> \<le> 2 ^ Suc i"
    using assms(1,2) by simp
  moreover have "Suc i \<le> 1023"
    using assms(3) by simp
  ultimately have "\<exists>r. binary64 (a + b) = Fin r \<and> \<bar>r\<bar> \<le> 2 ^ Suc i"
    by (rule binary64_finite)
  then show ?thesis by (simp only: js_add.simps)
qed

lemma js_mul_nonneg:
  assumes "0 \<le> a" and "0 \<le> b"
  shows "js_mul (Fin a) (Fin b) = PInf \<or> (\<exists>r. js_mul (Fin a) (Fin b) = Fin r \<and> 0 \<le> r)"
  using assms by (simp add: binary64_nonneg)

lemma js_add_nonneg:
  assumes "x = PInf \<or> (\<exists>r. x = Fin r \<and> 0 \<le> r)"
    and "y = PInf \<or> (\<exists>r. y = Fin r \<and> 0 \<le> r)"
  shows "js_add x y = PInf \<or> (\<exists>r. js_add x y = Fin r \<and> 0 \<le> r)"
proof -
  from assms consider "x = PInf" and "y = PInf"
    | r where "x = PInf" and "y = Fin r"
    | r where "x = Fin r" and "y = PInf"
    | r r' where "x = Fin r" and "0 \<le> r" and "y = Fin r'" and "0 \<le> r'"
    by blast
  then show ?thesis
  proof cases
    case 4
    then have "0 \<le> r + r'" by simp
    then show ?thesis
      using binary64_nonneg [of "r + r'"] 4 by simp
  qed simp_all
qed

lemma js_mul_nonneg_pos:
  assumes "x = PInf \<or> (\<exists>r. x = Fin r \<and> 0 \<le> r)" and "0 < c"
  shows "js_mul x (Fin c) = PInf \<or> (\<exists>r. js_mul x (Fin c) = Fin r \<and> 0 \<le> r)"
proof -
  from assms(1) consider "x = PInf" | r where "x = Fin r" and "0 \<le> r"
    by blast
  then show ?thesis
  proof cases
    case 1
    then show ?thesis using assms(2) by simp
  next
    case 2
    then have "0 \<le> r * c" using assms(2) by simp
    then show ?thesis
      using binary64_nonneg [of "r * c"] 2 by simp
  qed
qed

text \<open>
  For a finite mass of at most \<open>10\<^sup>9\<close> kg the volume, the capital cost and, with prices
  of magnitude at most \<open>10\<^sup>4\<close>, the monthly saving are finite and far below \<open>2 ^ 53\<close>.
\<close>

lemma est_biogas_m3_bound:
  assumes "kgPerDay a = Fin q" and "q \<le> 10 ^ 9"
  shows "\<exists>b. est_biogas_m3 a = Fin b \<and> 0 \<le> b \<and> b \<le> 2 ^ 27"
proof -
  obtain f where f: "factor_m3_per_kg (est_fs a) = Fin f" and f0: "0 < f" and f8: "f \<le> 1 / 8"
    using est_fs_factor_pos by blast
  have b: "est_biogas_m3 a = binary64 (max 0 q * f)"
    by (simp add: est_biogas_m3_def assms(1) f Math_max_zero_Fin del: Math_max.simps)
  have nn: "0 \<le> max 0 q * f"
    using f0 by simp
  have "max 0 q * f \<le> 10 ^ 9 * (1 / 8)"
    using assms(2) f0 f8 by (intro mult_mono) simp_all
  also have "\<dots> \<le> (2::rat) ^ 27" by simp
  finally have "\<bar>max 0 q * f\<bar> \<le> 2 ^ 27"
    using nn by simp
  then obtain r where r: "binary64 (max 0 q * f) = Fin r" and "\<bar>r\<bar> \<le> 2 ^ 27"
    using binary64_finite [of "max 0 q * f" 27] by auto
  moreover have "0 \<le> r"
    using binary64_nonneg [OF nn] r by simp
  ultimately show ?thesis
    using b by simp
qed

lemma est_capex_bound:
  assumes "kgPerDay a = Fin q" and "q \<le> 10 ^ 9"
  shows "\<exists>c. est_capex a = Fin c \<and> 12000000 \<le> c \<and> c \<le> 2 ^ 48"
proof -
  obtain b where b: "est_biogas_m3 a = Fin b" and b0: "0 \<le> b" and b27: "b \<le> 2 ^ 27"
    using est_biogas_m3_bound [OF assms] by blast
  have "\<bar>b\<bar> \<le> 2 ^ 27" and "\<bar>1200000 :: rat\<bar> \<le> 2 ^ 21"
    using b0 b27 by simp_all
  then obtain r where r: "js_mul (Fin b) (Fin 1200000) = Fin r" and "\<bar>r\<bar> \<le> 2 ^ (27 + 21)"
    using js_mul_bounded [of b 27 1200000 21] by auto
  then have "r \<le> 2 ^ 48" by simp
  then show ?thesis
    by (simp add: est_capex_def b r del: js_mul.simps)
qed

lemma est_electric_kwh_bound:
  assumes "kgPerDay a = Fin q" and "q \<le> 10 ^ 9"
  shows "\<exists>l. est_electric_kwh a = Fin l \<and> 0 \<le> l \<and> l \<le> 2 ^ 28"
proof -
  obtain b where b: "est_biogas_m3 a = Fin b" and b0: "0 \<le> b" and b27: "b \<le> 2 ^ 27"
    using est_biogas_m3_bound [OF assms] by blast
  have nn: "0 \<le> b * 2" using b0 by simp
  have "\<bar>b * 2\<bar> \<le> 2 ^ 28" using b0 b27 by simp
  then obtain r where r: "binary64 (b * 2) = Fin r" and "\<bar>r\<bar> \<le> 2 ^ 28"
    using binary64_finite [of "b * 2" 28] by auto
  moreover have "0 \<le> r"
    using binary64_nonneg [OF nn] r by simp
  ultimately show ?thesis
    by (simp add: est_electric_kwh_def b)
qed

lemma est_monthly_saving_nonneg:
  assumes "kgPerDay a = Fin q" and "q \<le> 10 ^ 9"
    and "est_gasPriceUZS a = Fin g" and "0 \<le> g"
    and "est_electricityPriceUZS a = Fin e" and "0 \<le> e"
  shows "est_monthly_saving a = PInf \<or> (\<exists>s. est_monthly_saving a = Fin s \<and> 0 \<le> s)"
proof -
  obtain b where b: "est_biogas_m3 a = Fin b" and b0: "0 \<le> b"
    using est_biogas_m3_bound [OF assms(1,2)] by blast
  obtain l where l: "est_electric_kwh a = Fin l" and l0: "0 \<le> l"
    using est_electric_kwh_bound [OF assms(1,2)] by blast
  have "js_add (js_mul (Fin b) (Fin g)) (js_mul (Fin l) (Fin e)) = PInf
    \<or> (\<exists>r. js_add (js_mul (Fin b) (Fin g)) (js_mul (Fin l) (Fin e)) = Fin r \<and> 0 \<le> r)"
    using b0 l0 assms(4,6) by (intro js_add_nonneg js_mul_nonneg)
  then have "js_mul (js_add (js_mul (Fin b) (Fin g)) (js_mul (Fin l) (Fin e))) (Fin 30) = PInf
    \<or> (\<exists>r. js_mul (js_add (js_mul (Fin b) (Fin g)) (js_mul (Fin l) (Fin e))) (Fin 30) = Fin r
          \<and> 0 \<le> r)"
    by (rule js_mul_nonneg_pos) simp
  then show ?thesis
    by (simp only: est_monthly_saving_def b l assms(3,5))
qed

lemma est_monthly_saving_bound:
  assumes "kgPerDay a = Fin q" and "q \<le> 10 ^ 9"
    and "est_gasPriceUZS a = Fin g" and "\<bar>g\<bar> \<le> 10 ^ 4"
    and "est_electricityPriceUZS a = Fin e" and "\<bar>e\<bar> \<le> 10 ^ 4"
  shows "\<exists>s. est_monthly_saving a = Fin s \<and> \<bar>s\<bar> \<le> 2 ^ 48"
proof -
  obtain b where b: "est_biogas_m3 a = Fin b" and b0: "0 \<le> b" and b27: "b \<le> 2 ^ 27"
    using est_biogas_m3_bound [OF assms(1,2)] by blast
  obtain l where l: "est_electric_kwh a = Fin l" and l0: "0 \<le> l" and l28: "l \<le> 2 ^ 28"
    using est_electric_kwh_bound [OF assms(1,2)] by blast
  have g: "\<bar>g\<bar> \<le> 2 ^ 14" and e: "\<bar>e\<bar> \<le> 2 ^ 14"
    using assms(4,6) by simp_all
  have "\<bar>b\<bar> \<le> 2 ^ 28" using b0 b27 by simp
  then obtain x where x: "js_mul (Fin b) (Fin g) = Fin x" and xb: "\<bar>x\<bar> \<le> 2 ^ (28 + 14)"
    using js_mul_bounded [of b 28 g 14] g by auto
  have "\<bar>l\<bar> \<le> 2 ^ 28" using l0 l28 by simp
  then obtain y where y: "js_mul (Fin l) (Fin e) = Fin y" and yb: "\<bar>y\<bar> \<le> 2 ^ (28 + 14)"
    using js_mul_bounded [of l 28 e 14] e by auto
  obtain z where z: "js_add (Fin x) (Fin y) = Fin z" and zb: "\<bar>z\<bar> \<le> 2 ^ Suc (28 + 14)"
    using js_add_bounded [OF xb yb] by auto
  have "\<bar>30 :: rat\<bar> \<le> 2 ^ 5" by simp
  then obtain s where s: "js_mul (Fin z) (Fin 30) = Fin s" and sb: "\<bar>s\<bar> \<le> 2 ^ (Suc (28 + 14) + 5)"
    using js_mul_bounded [OF zb, of 30 5] by auto
  from sb have "\<bar>s\<bar> \<le> 2 ^ 48" by simp
  then show ?thesis
    by (simp only: est_monthly_saving_def b l assms(3,5) x y z s) blast
qed

section \<open>Facts about \<open>chartData\<close>\<close>

lemma chart_from_length: "length (chart_from m c ns) = length ns"
  by (induction ns arbitrary: c) (simp_all add: Let_def)

lemma chart_from_month: "map month (chart_from m c ns) = map Suc ns"
  by (induction ns arbitrary: c) (simp_all add: Let_def)

text \<open>
  With whole numbers, and as long as the running total stays within \<open>2 ^ 53\<close>, every
  addition is exact and the total after \<open>k + 1\<close> steps is in closed form.
\<close>

lemma chart_from_nth_int:
  assumes "\<bar>c\<bar> + int (length ns) * \<bar>s\<bar> \<le> 2 ^ 53" and "k < length ns"
  shows "chart_from (Fin (of_int s)) (Fin (of_int c)) ns ! k
     = \<lparr>month = ns ! k + 1, cum = Fin (of_int (c + (int k + 1) * s))\<rparr>"
  using assms
proof (induction ns arbitrary: c k)
  case Nil
  then show ?case by simp
next
  case (Cons n ns)
  have "\<bar>c + s\<bar> \<le> \<bar>c\<bar> + \<bar>s\<bar>" by simp
  also have "\<dots> \<le> \<bar>c\<bar> + int (length (n # ns)) * \<bar>s\<bar>"
    by (simp add: algebra_simps)
  finally have cs: "\<bar>c + s\<bar> \<le> 2 ^ 53"
    using Cons.prems(1) by simp
  then have add: "js_add (Fin (of_int c)) (Fin (of_int s)) = Fin (of_int (c + s))"
    by (rule js_add_of_int)
  show ?case
  proof (cases k)
    case 0
    then show ?thesis
      by (simp add: Let_def add Math_round_Ints del: js_add.simps Math_round.simps)
  next
    case (Suc j)
    with Cons.prems have j: "j < length ns" by simp
    have "\<bar>c + s\<bar> + int (length ns) * \<bar>s\<bar> \<le> \<bar>c\<bar> + int (length (n # ns)) * \<bar>s\<bar>"
      by (simp add: algebra_simps)
    then have "\<bar>c + s\<bar> + int (length ns) * \<bar>s\<bar> \<le> 2 ^ 53"
      using Cons.prems(1) by simp
    then have "chart_from (Fin (of_int s)) (Fin (of_int (c + s))) ns ! j
       = \<lparr>month = ns ! j + 1, cum = Fin (of_int (c + s + (int j + 1) * s))\<rparr>"
      using j by (rule Cons.IH)
    then show ?thesis
      using Suc by (simp add: Let_def add algebra_simps Math_round_Ints del: js_add.simps Math_round.simps)
  qed
qed

lemma chartData_nth_int:
  assumes "capex r = Fin (of_int c)" and "monthly_saving r = Fin (of_int s)"
    and "\<bar>c\<bar> + 12 * \<bar>s\<bar> \<le> 2 ^ 53" and "j < 12"
  shows "chartData r ! j = \<lparr>month = Suc j, cum = Fin (of_int (- c + int (Suc j) * s))\<rparr>"
proof -
  have "js_neg (js_or (Fin (of_int c)) (Fin 0)) = Fin (of_int (- c))"
    by (simp only: js_or_Fin_zero js_neg.simps of_int_minus)
  then have cd: "chartData r = chart_from (Fin (of_int s)) (Fin (of_int (- c))) [0 ..< 12]"
    by (simp only: chartData_def assms(1,2) js_or_Fin_zero Let_def)
  have "\<bar>- c\<bar> + int (length [0 ..< 12]) * \<bar>s\<bar> \<le> 2 ^ 53"
    using assms(3) by simp
  moreover have "j < length [0 ..< 12]"
    using assms(4) by simp
  ultimately have "chart_from (Fin (of_int s)) (Fin (of_int (- c))) [0 ..< 12] ! j
     = \<lparr>month = [0 ..< 12] ! j + 1, cum = Fin (of_int (- c + (int j + 1) * s))\<rparr>"
    by (rule chart_from_nth_int)
  moreover have "[0 ..< 12] ! j = j"
    using assms(4) by (simp del: upt.simps)
  ultimately show ?thesis
    by (simp add: cd del: upt.simps)
qed

section \<open>Evaluations and further bounds\<close>

text \<open>
  The local constants and the result at the initial state of the form, evaluated one
  operation after the other.
\<close>

lemma initial_biogas_m3: "est_biogas_m3 initial_calc = Fin 18"
  by code_simp

lemma initial_thermal_kwh: "est_thermal_kwh initial_calc = Fin 108"
  unfolding est_thermal_kwh_def initial_biogas_m3 by code_simp

lemma initial_electric_kwh: "est_electric_kwh initial_calc = Fin 36"
  unfolding est_electric_kwh_def initial_biogas_m3 by code_simp

lemma initial_prices:
  "est_gasPriceUZS initial_calc = Fin 1800" "est_electricityPriceUZS initial_calc = Fin 450"
  by (simp_all add: initial_calc_def est_gasPriceUZS_def est_electricityPriceUZS_def)

lemma initial_monthly_saving: "est_monthly_saving initial_calc = Fin 1458000"
  unfolding est_monthly_saving_def initial_biogas_m3 initial_electric_kwh initial_prices
  by code_simp

lemma initial_capex: "est_capex initial_calc = Fin 21600000"
  unfolding est_capex_def initial_biogas_m3 by code_simp

lemma initial_payback_months: "est_payback_months initial_calc = binary64 (21600000 / 1458000)"
  unfolding est_payback_months_def initial_monthly_saving initial_capex by code_simp

lemma initial_co2_kg_per_day: "est_co2_kg_per_day initial_calc = js_mul (Fin 18) (binary64 (19 / 10))"
  unfolding est_co2_kg_per_day_def initial_biogas_m3 by (rule refl)

lemma initial_estimate:
  "estimate initial_calc
   = \<lparr>feedstock = ''Qoramol go'' @ [CHR 0xE2, CHR 0x80, CHR 0x98] @ ''ngi'',
      biogas_m3 = Fin 18,
      thermal_kwh = Fin 108,
      electric_kwh = Fin 36,
      monthly_saving = Fin 1458000,
      capex = Fin 21600000,
      payback_months = Some (binary64 (148 / 10)),
      co2_kg_per_day = binary64 (342 / 10)\<rparr>"
  unfolding estimate_def initial_biogas_m3 initial_thermal_kwh initial_electric_kwh
    initial_monthly_saving initial_capex initial_payback_months initial_co2_kg_per_day
  by code_simp

text \<open>
  The fields of the returned object, one by one.
\<close>

lemma estimate_sel:
  "feedstock (estimate a) = label (est_fs a)"
  "biogas_m3 (estimate a) = round_js (est_biogas_m3 a) 2"
  "thermal_kwh (estimate a) = round_js (est_thermal_kwh a) 1"
  "electric_kwh (estimate a) = round_js (est_electric_kwh a) 1"
  "monthly_saving (estimate a) = Math_round (est_monthly_saving a)"
  "capex (estimate a) = Math_round (est_capex a)"
  "payback_months (estimate a)
     = (if est_payback_months a = PInf then None else Some (round_js (est_payback_months a) 1))"
  "co2_kg_per_day (estimate a) = round_js (est_co2_kg_per_day a) 1"
  by (simp_all add: estimate_def)

text \<open>
  335 kg of cattle manure a day at the prices 64 and 608: the products are not the
  decimals \<open>10.05\<close> and \<open>12060000\<close> but their binary64 neighbours.
\<close>

lemma priced_biogas_m3: "est_biogas_m3 priced_calc = Fin (5657647031884185 / 562949953421312)"
  by code_simp

lemma priced_electric_kwh:
  "est_electric_kwh priced_calc = Fin (5657647031884185 / 281474976710656)"
  unfolding est_electric_kwh_def priced_biogas_m3 by code_simp

lemma priced_prices:
  "est_gasPriceUZS priced_calc = Fin 64" "est_electricityPriceUZS priced_calc = Fin 608"
  by (simp_all add: priced_calc_def est_gasPriceUZS_def est_electricityPriceUZS_def)

lemma priced_monthly_saving: "est_monthly_saving priced_calc = Fin 385920"
  unfolding est_monthly_saving_def priced_biogas_m3 priced_electric_kwh priced_prices
  by code_simp

lemma priced_capex: "est_capex priced_calc = Fin (6474663198719999 / 536870912)"
  unfolding est_capex_def priced_biogas_m3 by code_simp

lemma priced_payback_months:
  "est_payback_months priced_calc = Fin (8796093022207999 / 281474976710656)"
  unfolding est_payback_months_def priced_monthly_saving priced_capex by code_simp

lemma priced_fields:
  "monthly_saving (estimate priced_calc) = Fin 385920"
  "capex (estimate priced_calc) = Fin 12060000"
  "payback_months (estimate priced_calc) = Some (binary64 (312 / 10))"
  unfolding estimate_sel priced_monthly_saving priced_capex priced_payback_months
  by code_simp+

text \<open>
  0.0001 kg of cattle manure a day.
\<close>

lemma tiny_biogas_m3: "est_biogas_m3 tiny_calc = binary64 (3 / 1000000)"
  by code_simp

lemma tiny_electric_kwh: "est_electric_kwh tiny_calc = binary64 (6 / 1000000)"
  unfolding est_electric_kwh_def tiny_biogas_m3 by code_simp

lemma tiny_prices:
  "est_gasPriceUZS tiny_calc = Fin 1800" "est_electricityPriceUZS tiny_calc = Fin 450"
  by (simp_all add: tiny_calc_def est_gasPriceUZS_def est_electricityPriceUZS_def)

lemma tiny_monthly_saving: "est_monthly_saving tiny_calc = binary64 (243 / 1000)"
  unfolding est_monthly_saving_def tiny_biogas_m3 tiny_electric_kwh tiny_prices
  by code_simp

lemma tiny_capex: "est_capex tiny_calc = Fin 12000000"
  unfolding est_capex_def tiny_biogas_m3 by code_simp

lemma tiny_payback_months: "est_payback_months tiny_calc = js_div (Fin 12000000) (binary64 (243 / 1000))"
  unfolding est_payback_months_def tiny_monthly_saving tiny_capex by code_simp

lemma tiny_fields:
  "monthly_saving (estimate tiny_calc) = Fin 0"
  "payback_months (estimate tiny_calc) = Some (Fin 49382716)"
  unfolding estimate_sel tiny_monthly_saving tiny_payback_months
  by code_simp+

text \<open>
  \<open>2 ^ 60\<close> kg and \<open>10\<^sup>1\<^sup>2 + 1\<close> kg of cattle manure a day.
\<close>

lemma huge_biogas_m3: "est_biogas_m3 huge_calc = Fin 34587645138205408"
  by code_simp

lemma huge_field: "biogas_m3 (estimate huge_calc) = Fin 34587645138205408"
  unfolding estimate_sel huge_biogas_m3 by code_simp

lemma large_biogas_m3: "est_biogas_m3 large_calc = binary64 (3000000000003 / 100)"
  by code_simp

lemma large_electric_kwh: "est_electric_kwh large_calc = binary64 (6000000000006 / 100)"
  unfolding est_electric_kwh_def large_biogas_m3 by code_simp

lemma large_prices:
  "est_gasPriceUZS large_calc = Fin 1800" "est_electricityPriceUZS large_calc = Fin 450"
  by (simp_all add: large_calc_def est_gasPriceUZS_def est_electricityPriceUZS_def)

lemma large_monthly_saving: "monthly_saving (estimate large_calc) = Fin 2430000000002430"
  unfolding estimate_sel est_monthly_saving_def large_biogas_m3 large_electric_kwh large_prices
  by code_simp

lemma large_capex: "capex (estimate large_calc) = Fin 36000000000036000"
  unfolding estimate_sel est_capex_def large_biogas_m3
  by code_simp

text \<open>
  The quotient of the payback overflows only for a saving below \<open>1/2\<close>, and
  \<^verbatim>\<open>round(x, 1)\<close> of a number between 0 and \<open>2 ^ 49\<close> is a finite number.
\<close>

lemma js_le_not_gt: "js_le x (Fin 0) \<Longrightarrow> \<not> js_gt x (Fin 0)"
  by (cases x) auto

lemma payback_overflow_small:
  fixes c s :: rat
  assumes "binary64 (c / s) = PInf" and "0 < s" and "c \<le> 2 ^ 48"
  shows "s < 1 / 2"
proof -
  have "2 ^ 1023 < c / s"
    using assms(1) by (rule binary64_PInf_D)
  then have "2 ^ 1023 * s < c"
    using assms(2) by (simp add: pos_less_divide_eq)
  then have "2 ^ 1023 * s < 2 ^ 48"
    using assms(3) by simp
  moreover have "(2::rat) ^ 1023 = 2 ^ 975 * 2 ^ 48"
    by (simp only: power_add [symmetric]) simp
  ultimately have "2 ^ 975 * s * 2 ^ 48 < 1 * (2::rat) ^ 48"
    by (simp add: mult.commute mult.left_commute)
  then have "2 ^ 975 * s < 1"
    by (simp only: mult_less_cancel_right_pos zero_less_power zero_less_numeral)
  moreover have "2 * s \<le> 2 ^ 975 * s"
    using assms(2) by (intro mult_right_mono) simp_all
  ultimately show ?thesis by simp
qed

lemma round_js_1_finite:
  assumes "0 \<le> x" and "x \<le> 2 ^ 49"
  shows "\<exists>p. round_js (Fin x) 1 = Fin p \<and> 0 \<le> p"
proof -
  have nn: "0 \<le> x * 10"
    using assms(1) by simp
  have "\<bar>x * 10\<bar> \<le> 2 ^ 53"
    using assms by simp
  then obtain y where y: "binary64 (x * 10) = Fin y" and yb: "\<bar>y\<bar> \<le> 2 ^ 53"
    using binary64_finite [of "x * 10" 53] by auto
  have y0: "0 \<le> y"
    using binary64_nonneg [OF nn] y by simp
  define n where "n = \<lfloor>y + 1 / 2\<rfloor>"
  have n1: "rat_of_int n \<le> y + 1 / 2" and n2: "y + 1 / 2 < rat_of_int n + 1"
    unfolding n_def by linarith+
  have n0: "0 \<le> rat_of_int n / 10"
    using n2 y0 by simp
  have "\<bar>rat_of_int n / 10\<bar> \<le> 2 ^ 50"
    using n1 n2 yb y0 by simp
  then obtain p where p: "binary64 (rat_of_int n / 10) = Fin p"
    using binary64_finite [of "rat_of_int n / 10" 50] by auto
  have "0 \<le> p"
    using binary64_nonneg [OF n0] p by simp
  moreover have "round_js (Fin x) 1 = Fin p"
    by (simp add: round_js_def y n_def [symmetric] p)
  ultimately show ?thesis by blast
qed

text \<open>
  The rounding error in absolute terms, for a result of magnitude at most \<open>2 ^ k\<close>; and
  the error of \<^verbatim>\<open>round(x, 2)\<close> on a volume of at most \<open>2 ^ 27\<close>.
\<close>

lemma binary64_near:
  assumes "\<bar>x\<bar> \<le> 2 ^ k" and "k \<le> 1023"
  shows "\<exists>r. binary64 x = Fin r \<and> \<bar>r\<bar> \<le> 2 ^ k \<and> \<bar>r - x\<bar> \<le> 2 ^ k / 2 ^ 53 + 1 / 2 ^ 60"
proof -
  obtain r where r: "binary64 x = Fin r" and rb: "\<bar>r\<bar> \<le> 2 ^ k"
    using binary64_finite [OF assms] by blast
  have "(2::rat) ^ 60 \<le> 2 ^ 1075"
    by (rule power_increasing) simp_all
  then have small: "1 / (2::rat) ^ 1075 \<le> 1 / 2 ^ 60"
    by (intro divide_left_mono) simp_all
  have "\<bar>x\<bar> / 2 ^ 53 \<le> 2 ^ k / 2 ^ 53"
    using assms(1) by (intro divide_right_mono) simp_all
  with binary64_error [OF r] small have "\<bar>r - x\<bar> \<le> 2 ^ k / 2 ^ 53 + 1 / 2 ^ 60"
    by linarith
  with r rb show ?thesis by blast
qed

lemma round_js_2_error:
  assumes "0 \<le> b" and "b \<le> 2 ^ 27"
  shows "\<exists>v. round_js (Fin b) 2 = Fin v \<and> \<bar>v - b\<bar> \<le> 1 / 200 + 1 / 2 ^ 24"
proof -
  have "\<bar>b * 100\<bar> \<le> 2 ^ 34"
    using assms by simp
  then obtain y where y: "binary64 (b * 100) = Fin y" and yb: "\<bar>y\<bar> \<le> 2 ^ 34"
    and ye: "\<bar>y - b * 100\<bar> \<le> 2 ^ 34 / 2 ^ 53 + 1 / 2 ^ 60"
    using binary64_near [of "b * 100" 34] by auto
  define n where "n = \<lfloor>y + 1 / 2\<rfloor>"
  have n1: "rat_of_int n \<le> y + 1 / 2" and n2: "y + 1 / 2 < rat_of_int n + 1"
    unfolding n_def by linarith+
  have "\<bar>rat_of_int n / 100\<bar> \<le> 2 ^ 28"
    using n1 n2 yb by simp
  then obtain v where v: "binary64 (rat_of_int n / 100) = Fin v"
    and ve: "\<bar>v - rat_of_int n / 100\<bar> \<le> 2 ^ 28 / 2 ^ 53 + 1 / 2 ^ 60"
    using binary64_near [of "rat_of_int n / 100" 28] by auto
  have "round_js (Fin b) 2 = Fin v"
    by (simp add: round_js_def y n_def [symmetric] v)
  moreover have "\<bar>v - b\<bar> \<le> 1 / 200 + 1 / 2 ^ 24"
    using ye ve n1 n2 unfolding abs_le_iff by simp
  ultimately show ?thesis by blast
qed

text \<open>
  With any finite numbers the additions are rounded. As long as the exact total stays
  within \<open>2 ^ 41\<close>, each addition is off by at most \<open>d = 1 / 2 ^ 11\<close>, and the point
  after \<open>k + 1\<close> steps holds the rounding to a whole number of a total \<open>w\<close> that is off
  by at most \<open>k + 1\<close> times as much.
\<close>

lemma chart_from_nth_near:
  assumes "\<bar>u - t\<bar> \<le> e"
    and "\<bar>t\<bar> + of_nat (length ns) * \<bar>s\<bar> + e + of_nat (length ns) * d \<le> 2 ^ 41"
    and "2 ^ 41 / 2 ^ 53 + 1 / 2 ^ 60 \<le> d"
    and "k < length ns"
  shows "\<exists>w. chart_from (Fin s) (Fin u) ns ! k
           = \<lparr>month = ns ! k + 1, cum = Fin (of_int \<lfloor>w + 1 / 2\<rfloor>)\<rparr>
         \<and> \<bar>w - (t + (of_nat k + 1) * s)\<bar> \<le> e + (of_nat k + 1) * d"
  using assms
proof (induction ns arbitrary: u t e k)
  case Nil
  then show ?case by simp
next
  case (Cons n ns)
  define A where "A = of_nat (length ns) * \<bar>s\<bar>"
  define B where "B = of_nat (length ns) * d"
  have d0: "0 \<le> d"
    using Cons.prems(3) by simp
  have A0: "0 \<le> A" and B0: "0 \<le> B"
    using d0 by (simp_all add: A_def B_def)
  have bound: "\<bar>t\<bar> + (A + \<bar>s\<bar>) + e + (B + d) \<le> 2 ^ 41"
    using Cons.prems(2) by (simp add: A_def B_def algebra_simps)
  have "\<bar>u + s\<bar> \<le> \<bar>u - t\<bar> + \<bar>t\<bar> + \<bar>s\<bar>"
    by linarith
  also have "\<dots> \<le> e + \<bar>t\<bar> + \<bar>s\<bar>"
    using Cons.prems(1) by simp
  also have "\<dots> \<le> 2 ^ 41"
    using bound A0 B0 d0 by simp
  finally have "\<bar>u + s\<bar> \<le> 2 ^ 41" .
  then obtain u' where u': "binary64 (u + s) = Fin u'"
    and ue: "\<bar>u' - (u + s)\<bar> \<le> 2 ^ 41 / 2 ^ 53 + 1 / 2 ^ 60"
    using binary64_near [of "u + s" 41] by auto
  from ue Cons.prems(3) have ue': "\<bar>u' - (u + s)\<bar> \<le> d"
    by (rule order_trans)
  have near: "\<bar>u' - (t + s)\<bar> \<le> e + d"
    using ue' Cons.prems(1) by linarith
  have step: "chart_from (Fin s) (Fin u) (n # ns)
      = \<lparr>month = n + 1, cum = Fin (of_int \<lfloor>u' + 1 / 2\<rfloor>)\<rparr> # chart_from (Fin s) (Fin u') ns"
    by (simp add: Let_def u')
  show ?case
  proof (cases k)
    case 0
    have "chart_from (Fin s) (Fin u) (n # ns) ! k
           = \<lparr>month = (n # ns) ! k + 1, cum = Fin (of_int \<lfloor>u' + 1 / 2\<rfloor>)\<rparr>"
      unfolding step 0 by simp
    moreover have "\<bar>u' - (t + (of_nat k + 1) * s)\<bar> \<le> e + (of_nat k + 1) * d"
      using near by (simp add: 0)
    ultimately show ?thesis by blast
  next
    case (Suc j)
    with Cons.prems(4) have j: "j < length ns" by simp
    have "\<bar>t + s\<bar> \<le> \<bar>t\<bar> + \<bar>s\<bar>" by simp
    then have "\<bar>t + s\<bar> + A + (e + d) + B \<le> 2 ^ 41"
      using bound by simp
    then have "\<bar>t + s\<bar> + of_nat (length ns) * \<bar>s\<bar> + (e + d) + of_nat (length ns) * d \<le> 2 ^ 41"
      by (simp only: A_def B_def)
    with near obtain w where w: "chart_from (Fin s) (Fin u') ns ! j
           = \<lparr>month = ns ! j + 1, cum = Fin (of_int \<lfloor>w + 1 / 2\<rfloor>)\<rparr>"
      and we: "\<bar>w - (t + s + (of_nat j + 1) * s)\<bar> \<le> e + d + (of_nat j + 1) * d"
      using Cons.IH [of u' "t + s" "e + d" j] Cons.prems(3) j by blast
    have "chart_from (Fin s) (Fin u) (n # ns) ! k
           = \<lparr>month = (n # ns) ! k + 1, cum = Fin (of_int \<lfloor>w + 1 / 2\<rfloor>)\<rparr>"
      unfolding step Suc by (simp add: w)
    moreover have "\<bar>w - (t + (of_nat k + 1) * s)\<bar> \<le> e + (of_nat k + 1) * d"
      using we by (simp add: Suc algebra_simps)
    ultimately show ?thesis by blast
  qed
qed

lemma chartData_last_near:
  assumes "capex r = Fin c" and "monthly_saving r = Fin s"
    and "\<bar>c\<bar> + 12 * \<bar>s\<bar> \<le> 2 ^ 40"
  shows "\<exists>v. chartData r ! 11 = \<lparr>month = 12, cum = Fin v\<rparr>
           \<and> \<bar>v - (- c + 12 * s)\<bar> \<le> 1 / 2 + 1 / 100"
proof -
  have cd: "chartData r = chart_from (Fin s) (Fin (- c)) [0 ..< 12]"
    by (simp only: chartData_def assms(1,2) js_or_Fin_zero Let_def js_neg.simps)
  have "\<bar>- c - (- c)\<bar> \<le> (0::rat)"
    by simp
  moreover have "\<bar>- c\<bar> + of_nat (length [0 ..< 12]) * \<bar>s\<bar> + 0
      + of_nat (length [0 ..< 12]) * (1 / 2 ^ 11) \<le> (2::rat) ^ 41"
    using assms(3) by simp
  moreover have "(2::rat) ^ 41 / 2 ^ 53 + 1 / 2 ^ 60 \<le> 1 / 2 ^ 11"
    by simp
  moreover have "11 < length [0 ..< 12]"
    by simp
  ultimately obtain w where w: "chart_from (Fin s) (Fin (- c)) [0 ..< 12] ! 11
           = \<lparr>month = [0 ..< 12] ! 11 + 1, cum = Fin (of_int \<lfloor>w + 1 / 2\<rfloor>)\<rparr>"
      and we: "\<bar>w - (- c + (of_nat 11 + 1) * s)\<bar> \<le> 0 + (of_nat 11 + 1) * (1 / 2 ^ 11)"
    using chart_from_nth_near [of "- c" "- c" 0 "[0 ..< 12]" s "1 / 2 ^ 11" 11] by blast
  have m: "[0 ..< 12] ! 11 + 1 = (12::nat)"
    by (simp del: upt.simps)
  have f1: "rat_of_int \<lfloor>w + 1 / 2\<rfloor> \<le> w + 1 / 2" and f2: "w + 1 / 2 < rat_of_int \<lfloor>w + 1 / 2\<rfloor> + 1"
    by linarith+
  have "chartData r ! 11 = \<lparr>month = 12, cum = Fin (of_int \<lfloor>w + 1 / 2\<rfloor>)\<rparr>"
    unfolding cd w m by (rule refl)
  moreover have "\<bar>rat_of_int \<lfloor>w + 1 / 2\<rfloor> - (- c + 12 * s)\<bar> \<le> 1 / 2 + 1 / 100"
  proof -
    have "\<bar>w - (- c + 12 * s)\<bar> \<le> 3 / 512"
      using we by simp
    then show ?thesis
      using f1 f2 by linarith
  qed
  ultimately show ?thesis by blast
qed

text \<open>
  \<^verbatim>\<open>Math.round\<close> does not leave the range of magnitude \<open>2 ^ 48\<close>.
\<close>

lemma floor_half_bound:
  fixes x :: rat
  assumes "\<bar>x\<bar> \<le> 2 ^ 48"
  shows "\<bar>\<lfloor>x + 1 / 2\<rfloor>\<bar> \<le> 2 ^ 48"
proof -
  have "x + 1 / 2 < of_int (2 ^ 48 + 1)"
    using assms by simp
  then have "\<lfloor>x + 1 / 2\<rfloor> < 2 ^ 48 + 1"
    by (simp only: floor_less_iff)
  moreover have "of_int (- (2 ^ 48)) \<le> x + 1 / 2"
    using assms by simp
  then have "- (2 ^ 48) \<le> \<lfloor>x + 1 / 2\<rfloor>"
    by (simp only: le_floor_iff)
  ultimately show ?thesis by linarith
qed

section \<open>The properties of the specification\<close>

subsection \<open>The example and the payback\<close>

text \<open>
  C1. For the input \<^verbatim>\<open>{feedstockKey: "cattle", kgPerDay: 600, gasPriceUZS: 1800,
  electricityPriceUZS: 450}\<close> the function \<^verbatim>\<open>estimate\<close> returns the biogas volume 18,
  the thermal energy 108, the electric energy 36, the monthly saving 1,458,000, the
  capital cost 21,600,000, the payback 14.8 months and the carbon dioxide reduction
  34.2, where 14.8 and 34.2 are the binary64 numbers that these decimals denote in
  JavaScript; the label is that of the cattle entry.
\<close>

theorem estimate_example:
  "estimate \<lparr>feedstockKey = ''cattle'', kgPerDay = Fin 600,
             gasPriceUZS = Some (Fin 1800), electricityPriceUZS = Some (Fin 450)\<rparr>
   = \<lparr>feedstock = ''Qoramol go'' @ [CHR 0xE2, CHR 0x80, CHR 0x98] @ ''ngi'',
      biogas_m3 = Fin 18,
      thermal_kwh = Fin 108,
      electric_kwh = Fin 36,
      monthly_saving = Fin 1458000,
      capex = Fin 21600000,
      payback_months = Some (binary64 (148 / 10)),
      co2_kg_per_day = binary64 (342 / 10)\<rparr>"
  unfolding initial_calc_def [symmetric] by (rule initial_estimate)

text \<open>
  C2, in the form that holds of the code. \<^verbatim>\<open>payback_months\<close> is \<^verbatim>\<open>null\<close> exactly when
  the monthly saving before its rounding to a whole number is not greater than zero, or
  the quotient \<^verbatim>\<open>capex / monthly_saving\<close> of the unrounded values overflows to
  \<^verbatim>\<open>Infinity\<close>; otherwise it is that quotient under \<^verbatim>\<open>round(x, 1)\<close>. The returned
  monthly saving is \<^verbatim>\<open>Math.round\<close> of the unrounded one. For a finite mass of at most
  \<open>10\<^sup>9\<close> kg and finite prices that are not negative: an unrounded saving \<open>\<le> 0\<close> gives
  \<^verbatim>\<open>null\<close>; \<^verbatim>\<open>null\<close> implies that the returned monthly saving is \<open>\<le> 0\<close>; and a returned
  monthly saving \<open>> 0\<close> comes with a payback that is a finite number and not negative.
\<close>

theorem estimate_payback_null:
  "(payback_months (estimate a) = None
      \<longleftrightarrow> \<not> js_gt (est_monthly_saving a) (Fin 0)
          \<or> js_div (est_capex a) (est_monthly_saving a) = PInf)
   \<and> (payback_months (estimate a) \<noteq> None
      \<longrightarrow> payback_months (estimate a)
          = Some (round_js (js_div (est_capex a) (est_monthly_saving a)) 1))
   \<and> monthly_saving (estimate a) = Math_round (est_monthly_saving a)
   \<and> (kgPerDay a = Fin q \<and> q \<le> 10 ^ 9
        \<and> est_gasPriceUZS a = Fin g \<and> 0 \<le> g
        \<and> est_electricityPriceUZS a = Fin e \<and> 0 \<le> e
      \<longrightarrow> (js_le (est_monthly_saving a) (Fin 0) \<longrightarrow> payback_months (estimate a) = None)
        \<and> (payback_months (estimate a) = None
            \<longrightarrow> js_le (monthly_saving (estimate a)) (Fin 0))
        \<and> (js_gt (monthly_saving (estimate a)) (Fin 0)
            \<longrightarrow> (\<exists>p. payback_months (estimate a) = Some (Fin p) \<and> 0 \<le> p)))"
proof (intro conjI impI)
  show "payback_months (estimate a) = None
      \<longleftrightarrow> \<not> js_gt (est_monthly_saving a) (Fin 0)
          \<or> js_div (est_capex a) (est_monthly_saving a) = PInf"
    by (simp add: payback_null_iff est_payback_months_def)
  show "payback_months (estimate a)
          = Some (round_js (js_div (est_capex a) (est_monthly_saving a)) 1)"
    if "payback_months (estimate a) \<noteq> None"
    using that by (simp add: estimate_def est_payback_months_def split: if_splits)
  show "monthly_saving (estimate a) = Math_round (est_monthly_saving a)"
    by (simp add: estimate_def)
next
  assume "kgPerDay a = Fin q \<and> q \<le> 10 ^ 9
        \<and> est_gasPriceUZS a = Fin g \<and> 0 \<le> g
        \<and> est_electricityPriceUZS a = Fin e \<and> 0 \<le> e"
    and "js_le (est_monthly_saving a) (Fin 0)"
  then have "\<not> js_gt (est_monthly_saving a) (Fin 0)"
    by (intro js_le_not_gt)
  then show "payback_months (estimate a) = None"
    by (simp add: payback_null_iff est_payback_months_def)
next
  assume h: "kgPerDay a = Fin q \<and> q \<le> 10 ^ 9
        \<and> est_gasPriceUZS a = Fin g \<and> 0 \<le> g
        \<and> est_electricityPriceUZS a = Fin e \<and> 0 \<le> e"
    and n: "payback_months (estimate a) = None"
  from h have kg: "kgPerDay a = Fin q" and q: "q \<le> 10 ^ 9"
    and gp: "est_gasPriceUZS a = Fin g" and g0: "0 \<le> g"
    and ep: "est_electricityPriceUZS a = Fin e" and e0: "0 \<le> e"
    by simp_all
  obtain c where c: "est_capex a = Fin c" and cb: "c \<le> 2 ^ 48"
    using est_capex_bound [OF kg q] by blast
  from n have p: "est_payback_months a = PInf"
    by (simp only: payback_null_iff)
  from est_monthly_saving_nonneg [OF kg q gp g0 ep e0]
  show "js_le (monthly_saving (estimate a)) (Fin 0)"
  proof (elim disjE exE conjE)
    assume "est_monthly_saving a = PInf"
    with p c show ?thesis
      by (simp add: est_payback_months_def)
  next
    fix s assume s: "est_monthly_saving a = Fin s" and s0: "0 \<le> s"
    show ?thesis
    proof (cases "s = 0")
      case True
      then show ?thesis
        by (simp add: estimate_def s floor_rat_one_half)
    next
      case False
      with s0 have pos: "0 < s" by simp
      with p c s have "binary64 (c / s) = PInf"
        by (simp add: est_payback_months_def)
      then have "s < 1 / 2"
        using pos cb by (rule payback_overflow_small)
      with s0 have "\<lfloor>s + 1 / 2\<rfloor> = 0"
        by (rule floor_half_small)
      then show ?thesis
        by (simp add: estimate_def s)
    qed
  qed
next
  assume h: "kgPerDay a = Fin q \<and> q \<le> 10 ^ 9
        \<and> est_gasPriceUZS a = Fin g \<and> 0 \<le> g
        \<and> est_electricityPriceUZS a = Fin e \<and> 0 \<le> e"
    and pos: "js_gt (monthly_saving (estimate a)) (Fin 0)"
  from h have kg: "kgPerDay a = Fin q" and q: "q \<le> 10 ^ 9"
    and gp: "est_gasPriceUZS a = Fin g" and g0: "0 \<le> g"
    and ep: "est_electricityPriceUZS a = Fin e" and e0: "0 \<le> e"
    by simp_all
  obtain c where c: "est_capex a = Fin c" and c0: "12000000 \<le> c" and cb: "c \<le> 2 ^ 48"
    using est_capex_bound [OF kg q] by blast
  from est_monthly_saving_nonneg [OF kg q gp g0 ep e0]
  show "\<exists>p. payback_months (estimate a) = Some (Fin p) \<and> 0 \<le> p"
  proof (elim disjE exE conjE)
    assume "est_monthly_saving a = PInf"
    then have "est_payback_months a = Fin 0"
      by (simp add: est_payback_months_def c)
    then show ?thesis
      by (simp add: estimate_sel round_js_zero)
  next
    fix s assume s: "est_monthly_saving a = Fin s" and s0: "0 \<le> s"
    from pos have "0 < \<lfloor>s + 1 / 2\<rfloor>"
      by (simp add: estimate_sel s)
    then have "1 \<le> \<lfloor>s + 1 / 2\<rfloor>"
      by simp
    then have "1 \<le> s + 1 / 2"
      by (simp only: le_floor_iff of_int_1)
    then have half: "1 / 2 \<le> s"
      by simp
    then have sp: "0 < s"
      by simp
    have x0: "0 \<le> c / s"
      using c0 sp by simp
    have "c / s \<le> 2 ^ 48 / (1 / 2)"
      using cb half by (intro frac_le) simp_all
    then have x49: "c / s \<le> 2 ^ 49"
      by simp
    then have "\<bar>c / s\<bar> \<le> 2 ^ 49"
      using x0 by simp
    then obtain x where x: "binary64 (c / s) = Fin x" and xb: "\<bar>x\<bar> \<le> 2 ^ 49"
      using binary64_finite [of "c / s" 49] by auto
    have xn: "0 \<le> x"
      using binary64_nonneg [OF x0] x by simp
    then have "x \<le> 2 ^ 49"
      using xb by simp
    with xn obtain p where p: "round_js (Fin x) 1 = Fin p" and p0: "0 \<le> p"
      using round_js_1_finite by blast
    have "est_payback_months a = Fin x"
      using sp by (simp add: est_payback_months_def s c x)
    then have "payback_months (estimate a) = Some (Fin p)"
      using p by (simp add: estimate_sel)
    with p0 show ?thesis by blast
  qed
qed

text \<open>
  335 kg of cattle manure a day at the prices 64 and 608. The unrounded capital cost is
  12059999.999999998 and the unrounded saving 385920, so the payback is
  31.249999999999996 rounded to 31.2, while the returned fields 12060000 and 385920
  have the quotient 31.25.
\<close>

theorem estimate_payback_null_witness:
  "kgPerDay priced_calc = Fin 335 \<and> (335 :: rat) \<le> 10 ^ 9
   \<and> est_gasPriceUZS priced_calc = Fin 64 \<and> (0 :: rat) \<le> 64
   \<and> est_electricityPriceUZS priced_calc = Fin 608 \<and> (0 :: rat) \<le> 608
   \<and> js_gt (est_monthly_saving priced_calc) (Fin 0)
   \<and> js_div (est_capex priced_calc) (est_monthly_saving priced_calc) \<noteq> PInf
   \<and> monthly_saving (estimate priced_calc) = Fin 385920
   \<and> capex (estimate priced_calc) = Fin 12060000
   \<and> payback_months (estimate priced_calc) = Some (binary64 (312 / 10))"
proof -
  have kg: "kgPerDay priced_calc = Fin 335"
    by (simp add: priced_calc_def)
  have gt: "js_gt (est_monthly_saving priced_calc) (Fin 0)"
    by (simp add: priced_monthly_saving)
  from estimate_payback_null [of priced_calc 335 64 608] priced_fields(3)
  have "js_div (est_capex priced_calc) (est_monthly_saving priced_calc) \<noteq> PInf"
    by simp
  then show ?thesis
    using kg priced_prices gt priced_fields by simp
qed

text \<open>
  The converse of the second implication fails, and with it the equivalence between
  \<^verbatim>\<open>null\<close> and a returned monthly saving \<open>\<le> 0\<close>. A mass of 0.0001 kg of cattle manure
  a day at the prices 1800 and 450 saves 0.243 a month before rounding: the returned
  monthly saving is 0, and the payback is not \<^verbatim>\<open>null\<close> but 49,382,716 months.
\<close>

theorem estimate_payback_null_counterexample:
  "js_gt (est_monthly_saving tiny_calc) (Fin 0)
   \<and> monthly_saving (estimate tiny_calc) = Fin 0
   \<and> payback_months (estimate tiny_calc) = Some (Fin 49382716)"
proof -
  have "js_gt (est_monthly_saving tiny_calc) (Fin 0)"
    unfolding tiny_monthly_saving by code_simp
  then show ?thesis
    by (simp add: tiny_fields)
qed

subsection \<open>The cashflow series\<close>

text \<open>
  C3, in the form that holds of the code. For every result object, \<^verbatim>\<open>chartData\<close> has
  exactly 12 points and their months are 1, 2, ..., 12 in this order, strictly
  increasing. When the capital cost and the monthly saving are whole numbers \<open>c\<close> and
  \<open>s\<close> with \<open>\<bar>c\<bar> + 12 * \<bar>s\<bar> \<le> 2 ^ 53\<close>, the point of month 12 holds exactly
  \<open>- c + 12 * s\<close>. When they are any finite numbers \<open>x\<close> and \<open>y\<close> with
  \<open>\<bar>x\<bar> + 12 * \<bar>y\<bar> \<le> 2 ^ 40\<close>, it holds a number within \<open>1/2 + 1/100\<close> of
  \<open>- x + 12 * y\<close>: \<open>1/2\<close> for the rounding of the point to a whole number, the rest for
  the twelve binary64 additions.
\<close>

theorem chartData_shape:
  "length (chartData r) = 12
   \<and> map month (chartData r) = [1 ..< 13]
   \<and> sorted_wrt (<) (map month (chartData r))
   \<and> (capex r = Fin (of_int c) \<and> monthly_saving r = Fin (of_int s)
        \<and> \<bar>c\<bar> + 12 * \<bar>s\<bar> \<le> 2 ^ 53
      \<longrightarrow> chartData r ! 11 = \<lparr>month = 12, cum = Fin (of_int (- c + 12 * s))\<rparr>)
   \<and> (capex r = Fin x \<and> monthly_saving r = Fin y \<and> \<bar>x\<bar> + 12 * \<bar>y\<bar> \<le> 2 ^ 40
      \<longrightarrow> (\<exists>v. chartData r ! 11 = \<lparr>month = 12, cum = Fin v\<rparr>
             \<and> \<bar>v - (- x + 12 * y)\<bar> \<le> 1 / 2 + 1 / 100))"
proof -
  have len: "length (chartData r) = 12"
    by (simp add: chartData_def chart_from_length Let_def del: upt.simps)
  have mon: "map month (chartData r) = [1 ..< 13]"
    by (simp add: chartData_def chart_from_month map_Suc_upt Let_def del: upt.simps)
  have srt: "sorted_wrt (<) (map month (chartData r))"
    unfolding mon by (rule sorted_wrt_upt)
  have exact: "chartData r ! 11 = \<lparr>month = 12, cum = Fin (of_int (- c + 12 * s))\<rparr>"
    if "capex r = Fin (of_int c)" and "monthly_saving r = Fin (of_int s)"
      and "\<bar>c\<bar> + 12 * \<bar>s\<bar> \<le> 2 ^ 53"
    using chartData_nth_int [OF that, of 11] by simp
  have near: "\<exists>v. chartData r ! 11 = \<lparr>month = 12, cum = Fin v\<rparr>
             \<and> \<bar>v - (- x + 12 * y)\<bar> \<le> 1 / 2 + 1 / 100"
    if "capex r = Fin x" and "monthly_saving r = Fin y" and "\<bar>x\<bar> + 12 * \<bar>y\<bar> \<le> 2 ^ 40"
    using that by (rule chartData_last_near)
  from len mon srt exact near show ?thesis by blast
qed

text \<open>
  A negative saving: from a capital cost of 1000 and a monthly saving of \<open>-250\<close> the
  last point is \<open>-4000\<close>.
\<close>

theorem chartData_shape_witness:
  "capex (sample_result (Fin 1000) (Fin (- 250))) = Fin (of_int 1000)
   \<and> monthly_saving (sample_result (Fin 1000) (Fin (- 250))) = Fin (of_int (- 250))
   \<and> \<bar>1000\<bar> + 12 * \<bar>- 250\<bar> \<le> (2 :: int) ^ 53
   \<and> \<bar>1000\<bar> + 12 * \<bar>- 250\<bar> \<le> (2 :: rat) ^ 40
   \<and> length (chartData (sample_result (Fin 1000) (Fin (- 250)))) = 12
   \<and> chartData (sample_result (Fin 1000) (Fin (- 250))) ! 11
       = \<lparr>month = 12, cum = Fin (- 4000)\<rparr>"
proof -
  define r where "r = sample_result (Fin 1000) (Fin (- 250))"
  have c: "capex r = Fin (of_int 1000)" and s: "monthly_saving r = Fin (of_int (- 250))"
    by (simp_all add: r_def sample_result_def)
  have b: "\<bar>1000\<bar> + 12 * \<bar>- 250\<bar> \<le> (2 :: int) ^ 53"
    by simp
  have b': "\<bar>1000\<bar> + 12 * \<bar>- 250\<bar> \<le> (2 :: rat) ^ 40"
    by simp
  from chartData_shape [of r 1000 "- 250" 1000 "- 250"] c s b
  have "length (chartData r) = 12"
    and "chartData r ! 11 = \<lparr>month = 12, cum = Fin (of_int (- 1000 + 12 * (- 250)))\<rparr>"
    by blast+
  with c s b b' show ?thesis
    unfolding r_def by simp
qed

text \<open>
  Beyond these magnitudes the additions lose the saving. From a capital cost of
  \<open>2 ^ 60 = 1152921504606846976\<close> and a monthly saving of 1 every running total is
  rounded back to \<open>- 2 ^ 60\<close>, and the point of month 12 is 12 away from
  \<open>- capex + 12 * monthly_saving\<close>.
\<close>

theorem chartData_shape_counterexample:
  "chartData (sample_result (Fin 1152921504606846976) (Fin 1)) ! 11
     = \<lparr>month = 12, cum = Fin (- 1152921504606846976)\<rparr>
   \<and> - 1152921504606846976 + 12 * 1 = (- 1152921504606846964 :: rat)"
  by code_simp

text \<open>
  C10, in the form that holds of the code. When \<^verbatim>\<open>estimate\<close> returns a finite capital
  cost \<open>c\<close> and a finite monthly saving \<open>s\<close> with \<open>\<bar>c\<bar> + 12 * \<bar>s\<bar> \<le> 2 ^ 53\<close>, both are
  whole numbers and for every month \<open>k\<close> from 1 to 12 the \<open>k\<close>-th point of \<^verbatim>\<open>chartData\<close>
  holds exactly \<open>- c + k * s\<close>: the additions are exact and the rounding of the point
  changes nothing. The condition holds for every finite mass of at most \<open>10\<^sup>9\<close> kg with
  finite prices of magnitude at most \<open>10\<^sup>4\<close>.
\<close>

theorem chartData_exact:
  "(capex (estimate a) = Fin c \<and> monthly_saving (estimate a) = Fin s
      \<and> \<bar>c\<bar> + 12 * \<bar>s\<bar> \<le> 2 ^ 53
    \<longrightarrow> c \<in> \<int> \<and> s \<in> \<int>
      \<and> (\<forall>k \<in> {1 .. 12}. chartData (estimate a) ! (k - 1)
            = \<lparr>month = k, cum = Fin (- c + of_nat k * s)\<rparr>))
   \<and> (kgPerDay a = Fin q \<and> q \<le> 10 ^ 9
      \<and> est_gasPriceUZS a = Fin g \<and> \<bar>g\<bar> \<le> 10 ^ 4
      \<and> est_electricityPriceUZS a = Fin e \<and> \<bar>e\<bar> \<le> 10 ^ 4
    \<longrightarrow> (\<exists>c s. capex (estimate a) = Fin c \<and> monthly_saving (estimate a) = Fin s
          \<and> \<bar>c\<bar> + 12 * \<bar>s\<bar> \<le> 2 ^ 53))"
proof (rule conjI; rule impI)
  assume h: "capex (estimate a) = Fin c \<and> monthly_saving (estimate a) = Fin s
      \<and> \<bar>c\<bar> + 12 * \<bar>s\<bar> \<le> 2 ^ 53"
  then have "Math_round (est_capex a) = Fin c" and "Math_round (est_monthly_saving a) = Fin s"
    by (simp_all add: estimate_def)
  then obtain ci si :: int where ci: "c = of_int ci" and si: "s = of_int si"
    using Math_round_Fin_D by blast
  have "rat_of_int (\<bar>ci\<bar> + 12 * \<bar>si\<bar>) \<le> of_int (2 ^ 53)"
    using h by (simp add: ci si)
  then have b: "\<bar>ci\<bar> + 12 * \<bar>si\<bar> \<le> 2 ^ 53"
    by (simp only: of_int_le_iff)
  have cap: "capex (estimate a) = Fin (of_int ci)"
    and sav: "monthly_saving (estimate a) = Fin (of_int si)"
    using h by (simp_all add: ci si)
  have "chartData (estimate a) ! (k - 1) = \<lparr>month = k, cum = Fin (- c + of_nat k * s)\<rparr>"
    if "k \<in> {1 .. 12}" for k
  proof -
    from that obtain j where j: "k = Suc j" and j12: "j < 12"
      by (cases k) auto
    have "chartData (estimate a) ! j
        = \<lparr>month = Suc j, cum = Fin (of_int (- ci + int (Suc j) * si))\<rparr>"
      using cap sav b j12 by (rule chartData_nth_int)
    then show ?thesis
      by (simp add: j ci si)
  qed
  then show "c \<in> \<int> \<and> s \<in> \<int>
      \<and> (\<forall>k \<in> {1 .. 12}. chartData (estimate a) ! (k - 1)
            = \<lparr>month = k, cum = Fin (- c + of_nat k * s)\<rparr>)"
    by (simp add: ci si)
next
  assume h: "kgPerDay a = Fin q \<and> q \<le> 10 ^ 9
      \<and> est_gasPriceUZS a = Fin g \<and> \<bar>g\<bar> \<le> 10 ^ 4
      \<and> est_electricityPriceUZS a = Fin e \<and> \<bar>e\<bar> \<le> 10 ^ 4"
  then have kg: "kgPerDay a = Fin q" and q: "q \<le> 10 ^ 9"
    and gp: "est_gasPriceUZS a = Fin g" and gb: "\<bar>g\<bar> \<le> 10 ^ 4"
    and ep: "est_electricityPriceUZS a = Fin e" and eb: "\<bar>e\<bar> \<le> 10 ^ 4"
    by simp_all
  obtain c' where c': "est_capex a = Fin c'" and c0: "12000000 \<le> c'" and c48: "c' \<le> 2 ^ 48"
    using est_capex_bound [OF kg q] by blast
  obtain s' where s': "est_monthly_saving a = Fin s'" and s48: "\<bar>s'\<bar> \<le> 2 ^ 48"
    using est_monthly_saving_bound [OF kg q gp gb ep eb] by blast
  have "\<bar>c'\<bar> \<le> 2 ^ 48"
    using c0 c48 by simp
  then have cb: "\<bar>\<lfloor>c' + 1 / 2\<rfloor>\<bar> \<le> 2 ^ 48"
    by (rule floor_half_bound)
  have sb: "\<bar>\<lfloor>s' + 1 / 2\<rfloor>\<bar> \<le> 2 ^ 48"
    using s48 by (rule floor_half_bound)
  have "\<bar>\<lfloor>c' + 1 / 2\<rfloor>\<bar> + 12 * \<bar>\<lfloor>s' + 1 / 2\<rfloor>\<bar> \<le> 2 ^ 53"
    using cb sb by simp
  then have "rat_of_int (\<bar>\<lfloor>c' + 1 / 2\<rfloor>\<bar> + 12 * \<bar>\<lfloor>s' + 1 / 2\<rfloor>\<bar>) \<le> of_int (2 ^ 53)"
    by (simp only: of_int_le_iff)
  then have "\<bar>rat_of_int \<lfloor>c' + 1 / 2\<rfloor>\<bar> + 12 * \<bar>rat_of_int \<lfloor>s' + 1 / 2\<rfloor>\<bar> \<le> 2 ^ 53"
    by simp
  moreover have "capex (estimate a) = Fin (of_int \<lfloor>c' + 1 / 2\<rfloor>)"
    and "monthly_saving (estimate a) = Fin (of_int \<lfloor>s' + 1 / 2\<rfloor>)"
    by (simp_all add: estimate_def c' s')
  ultimately show "\<exists>c s. capex (estimate a) = Fin c \<and> monthly_saving (estimate a) = Fin s
          \<and> \<bar>c\<bar> + 12 * \<bar>s\<bar> \<le> 2 ^ 53"
    by blast
qed

text \<open>
  At the initial state of the form: 21,600,000 and 1,458,000, so the series starts at
  \<open>-20,142,000\<close> and ends at \<open>-4,104,000\<close>.
\<close>

theorem chartData_exact_witness:
  "kgPerDay initial_calc = Fin 600 \<and> (600 :: rat) \<le> 10 ^ 9
   \<and> est_gasPriceUZS initial_calc = Fin 1800 \<and> \<bar>1800 :: rat\<bar> \<le> 10 ^ 4
   \<and> est_electricityPriceUZS initial_calc = Fin 450 \<and> \<bar>450 :: rat\<bar> \<le> 10 ^ 4
   \<and> capex (estimate initial_calc) = Fin 21600000
   \<and> monthly_saving (estimate initial_calc) = Fin 1458000
   \<and> \<bar>21600000\<bar> + 12 * \<bar>1458000\<bar> \<le> (2 :: rat) ^ 53
   \<and> chartData (estimate initial_calc) ! 0 = \<lparr>month = 1, cum = Fin (- 20142000)\<rparr>
   \<and> chartData (estimate initial_calc) ! 11 = \<lparr>month = 12, cum = Fin (- 4104000)\<rparr>"
proof -
  have kg: "kgPerDay initial_calc = Fin 600"
    by (simp add: initial_calc_def)
  have cap: "capex (estimate initial_calc) = Fin 21600000"
    and sav: "monthly_saving (estimate initial_calc) = Fin 1458000"
    by (simp_all add: initial_estimate)
  have b: "\<bar>21600000\<bar> + 12 * \<bar>1458000\<bar> \<le> (2 :: rat) ^ 53"
    by simp
  from chartData_exact [of initial_calc 21600000 1458000] cap sav b
  have pts: "\<forall>k \<in> {1 .. 12}. chartData (estimate initial_calc) ! (k - 1)
            = \<lparr>month = k, cum = Fin (- 21600000 + of_nat k * 1458000)\<rparr>"
    by blast
  from pts have "chartData (estimate initial_calc) ! (1 - 1)
            = \<lparr>month = 1, cum = Fin (- 21600000 + of_nat 1 * 1458000)\<rparr>"
    by (rule bspec) simp
  then have p1: "chartData (estimate initial_calc) ! 0 = \<lparr>month = 1, cum = Fin (- 20142000)\<rparr>"
    by simp
  from pts have "chartData (estimate initial_calc) ! (12 - 1)
            = \<lparr>month = 12, cum = Fin (- 21600000 + of_nat 12 * 1458000)\<rparr>"
    by (rule bspec) simp
  then have p12: "chartData (estimate initial_calc) ! 11 = \<lparr>month = 12, cum = Fin (- 4104000)\<rparr>"
    by simp
  from kg initial_prices cap sav p1 p12 show ?thesis
    by simp
qed

text \<open>
  For 1,000,000,000,001 kg of cattle manure a day at the prices 1800 and 450 the
  capital cost is 36,000,000,000,036,000 and the monthly saving 2,430,000,000,002,430.
  The first point holds \<open>-33,570,000,000,033,568\<close>, which is not
  \<open>- capex + monthly_saving = -33,570,000,000,033,570\<close>: the sum is above \<open>2 ^ 53\<close> and
  is rounded to a multiple of 4.
\<close>

theorem chartData_exact_counterexample:
  "capex (estimate large_calc) = Fin 36000000000036000
   \<and> monthly_saving (estimate large_calc) = Fin 2430000000002430
   \<and> chartData (estimate large_calc) ! 0 = \<lparr>month = 1, cum = Fin (- 33570000000033568)\<rparr>
   \<and> - 36000000000036000 + 1 * 2430000000002430 = (- 33570000000033570 :: rat)"
proof -
  have "chartData (estimate large_calc) ! 0 = \<lparr>month = 1, cum = Fin (- 33570000000033568)\<rparr>"
    unfolding chartData_def large_capex large_monthly_saving by code_simp
  then show ?thesis
    by (simp add: large_capex large_monthly_saving)
qed

subsection \<open>Mass, capital cost and catalog\<close>

text \<open>
  C4. When \<^verbatim>\<open>kgPerDay <= 0\<close> holds, negative masses and minus infinity included, the
  mass is clamped to zero: the returned biogas volume, thermal and electric energy and
  carbon dioxide reduction are 0 and \<^verbatim>\<open>payback_months\<close> is \<^verbatim>\<open>null\<close>, whatever the
  prices; the returned monthly saving is 0 when the two prices are finite numbers.
\<close>

theorem estimate_nonpositive_mass:
  assumes "js_le (kgPerDay a) (Fin 0)"
  shows "biogas_m3 (estimate a) = Fin 0
    \<and> thermal_kwh (estimate a) = Fin 0
    \<and> electric_kwh (estimate a) = Fin 0
    \<and> co2_kg_per_day (estimate a) = Fin 0
    \<and> payback_months (estimate a) = None
    \<and> (est_gasPriceUZS a = Fin g \<and> est_electricityPriceUZS a = Fin e
         \<longrightarrow> monthly_saving (estimate a) = Fin 0)"
proof -
  have b: "est_biogas_m3 a = Fin 0"
    using assms by (rule est_biogas_m3_nonpos)
  have t: "est_thermal_kwh a = Fin 0" and e: "est_electric_kwh a = Fin 0"
    and c: "est_co2_kg_per_day a = Fin 0"
    by (simp_all add: est_thermal_kwh_def est_electric_kwh_def est_co2_kg_per_day_def b
        literal_1_9 binary64_zero)
  have "\<not> js_gt (est_monthly_saving a) (Fin 0)"
    unfolding est_monthly_saving_def b e by (rule js_mul_zero_not_gt)
  then have p: "est_payback_months a = PInf"
    by (simp add: est_payback_months_def)
  have m: "est_monthly_saving a = Fin 0"
    if "est_gasPriceUZS a = Fin g" and "est_electricityPriceUZS a = Fin e"
    using that by (simp add: est_monthly_saving_def b e binary64_zero)
  show ?thesis
    using m by (simp add: estimate_sel b t e c p round_js_zero floor_rat_one_half)
qed

text \<open>
  Five kilograms less than nothing of poultry manure, at the default prices.
\<close>

theorem estimate_nonpositive_mass_witness:
  "js_le (kgPerDay \<lparr>feedstockKey = ''poultry'', kgPerDay = Fin (- 5),
       gasPriceUZS = None, electricityPriceUZS = None\<rparr>) (Fin 0)
   \<and> biogas_m3 (estimate \<lparr>feedstockKey = ''poultry'', kgPerDay = Fin (- 5),
       gasPriceUZS = None, electricityPriceUZS = None\<rparr>) = Fin 0
   \<and> monthly_saving (estimate \<lparr>feedstockKey = ''poultry'', kgPerDay = Fin (- 5),
       gasPriceUZS = None, electricityPriceUZS = None\<rparr>) = Fin 0
   \<and> payback_months (estimate \<lparr>feedstockKey = ''poultry'', kgPerDay = Fin (- 5),
       gasPriceUZS = None, electricityPriceUZS = None\<rparr>) = None"
proof -
  define a where "a = \<lparr>feedstockKey = ''poultry'', kgPerDay = Fin (- 5),
       gasPriceUZS = None, electricityPriceUZS = None\<rparr>"
  have h: "js_le (kgPerDay a) (Fin 0)"
    by (simp add: a_def)
  have g: "est_gasPriceUZS a = Fin 1800" and e: "est_electricityPriceUZS a = Fin 450"
    by (simp_all add: a_def est_defs)
  from estimate_nonpositive_mass [OF h, of 1800 450] g e
  have "biogas_m3 (estimate a) = Fin 0" and "monthly_saving (estimate a) = Fin 0"
    and "payback_months (estimate a) = None"
    by blast+
  with h show ?thesis
    unfolding a_def by blast
qed

text \<open>
  C5. When \<^verbatim>\<open>kgPerDay\<close> is a number (not \<^verbatim>\<open>NaN\<close>), the returned capital cost is at
  least the floor of 12,000,000, however small the biogas volume is: it is the larger
  of 12,000,000 and 1,200,000 times the biogas volume of the second step, rounded to a
  whole number.
\<close>

theorem estimate_capex_floor:
  assumes "kgPerDay a \<noteq> NaN"
  shows "js_le (Fin 12000000) (capex (estimate a))
    \<and> capex (estimate a)
        = Math_round (Math_max (Fin 12000000) (js_mul (est_biogas_m3 a) (Fin 1200000)))"
proof -
  have "js_mul (est_biogas_m3 a) (Fin 1200000) \<noteq> NaN"
    using assms by (simp add: est_biogas_m3_not_NaN js_mul_pos_not_NaN)
  then have "js_le (Fin 12000000) (est_capex a)"
    unfolding est_capex_def by (rule js_le_Math_max)
  then have "js_le (Fin 12000000) (Math_round (est_capex a))"
    by (rule js_le_Math_round) simp
  then show ?thesis by (simp add: estimate_sel est_capex_def)
qed

text \<open>
  One gram of food waste a day still costs the floor.
\<close>

theorem estimate_capex_floor_witness:
  "kgPerDay \<lparr>feedstockKey = ''food'', kgPerDay = binary64 (1 / 1000),
       gasPriceUZS = None, electricityPriceUZS = None\<rparr> \<noteq> NaN
   \<and> js_le (Fin 12000000) (capex (estimate \<lparr>feedstockKey = ''food'',
       kgPerDay = binary64 (1 / 1000), gasPriceUZS = None, electricityPriceUZS = None\<rparr>))"
proof -
  have h: "kgPerDay \<lparr>feedstockKey = ''food'', kgPerDay = binary64 (1 / 1000),
       gasPriceUZS = None, electricityPriceUZS = None\<rparr> \<noteq> NaN"
    by (simp add: binary64_not_NaN)
  show ?thesis
    by (rule conjI [OF h conjunct1 [OF estimate_capex_floor [OF h]]])
qed

text \<open>
  C6. When \<^verbatim>\<open>feedstockKey\<close> is the key of no entry of the catalog, \<^verbatim>\<open>estimate\<close> uses
  the first entry, cattle manure with the factor 0.03. The returned label is the label
  of that entry, and the returned volume, energies, carbon dioxide reduction, capital
  cost and monthly saving are computed from the product \<open>b\<close> of the clamped mass and
  the binary64 number 0.03. The whole result is the one that \<^verbatim>\<open>estimate\<close> returns for
  the key \<^verbatim>\<open>"cattle"\<close>. The function has no failing branch.
\<close>

theorem estimate_unknown_key:
  assumes "feedstockKey a \<notin> set (map key FEEDSTOCK)"
  shows "est_fs a = FEEDSTOCK ! 0
    \<and> key (FEEDSTOCK ! 0) = ''cattle''
    \<and> factor_m3_per_kg (FEEDSTOCK ! 0) = binary64 (3 / 100)
    \<and> feedstock (estimate a) = ''Qoramol go'' @ [CHR 0xE2, CHR 0x80, CHR 0x98] @ ''ngi''
    \<and> (let b = js_mul (Math_max (Fin 0) (kgPerDay a)) (binary64 (3 / 100))
        in biogas_m3 (estimate a) = round_js b 2
         \<and> thermal_kwh (estimate a) = round_js (js_mul b (Fin 6)) 1
         \<and> electric_kwh (estimate a) = round_js (js_mul b (Fin 2)) 1
         \<and> co2_kg_per_day (estimate a) = round_js (js_mul b (binary64 (19 / 10))) 1
         \<and> capex (estimate a) = Math_round (Math_max (Fin 12000000) (js_mul b (Fin 1200000)))
         \<and> monthly_saving (estimate a)
             = Math_round (js_mul (js_add (js_mul b (est_gasPriceUZS a))
                 (js_mul (js_mul b (Fin 2)) (est_electricityPriceUZS a))) (Fin 30)))
    \<and> estimate a = estimate (a\<lparr>feedstockKey := ''cattle''\<rparr>)"
proof -
  have fs: "est_fs a = FEEDSTOCK ! 0"
    using assms by (rule est_fs_unknown)
  have fs': "est_fs (a\<lparr>feedstockKey := ''cattle''\<rparr>) = FEEDSTOCK ! 0"
    by (simp add: est_fs_def FEEDSTOCK_def)
  have first: "key (FEEDSTOCK ! 0) = ''cattle''"
    "factor_m3_per_kg (FEEDSTOCK ! 0) = binary64 (3 / 100)"
    "label (FEEDSTOCK ! 0) = ''Qoramol go'' @ [CHR 0xE2, CHR 0x80, CHR 0x98] @ ''ngi''"
    by (simp_all add: FEEDSTOCK_def)
  have b: "est_biogas_m3 a = js_mul (Math_max (Fin 0) (kgPerDay a)) (binary64 (3 / 100))"
    by (simp only: est_biogas_m3_def fs first)
  have same: "estimate a = estimate (a\<lparr>feedstockKey := ''cattle''\<rparr>)"
    by (simp add: estimate_def est_biogas_m3_def est_thermal_kwh_def
        est_electric_kwh_def est_monthly_saving_def est_capex_def est_payback_months_def
        est_co2_kg_per_day_def est_gasPriceUZS_def est_electricityPriceUZS_def fs fs')
  have fields: "feedstock (estimate a) = ''Qoramol go'' @ [CHR 0xE2, CHR 0x80, CHR 0x98] @ ''ngi''"
    "biogas_m3 (estimate a) = round_js (est_biogas_m3 a) 2"
    "thermal_kwh (estimate a) = round_js (js_mul (est_biogas_m3 a) (Fin 6)) 1"
    "electric_kwh (estimate a) = round_js (js_mul (est_biogas_m3 a) (Fin 2)) 1"
    "co2_kg_per_day (estimate a) = round_js (js_mul (est_biogas_m3 a) (binary64 (19 / 10))) 1"
    "capex (estimate a)
       = Math_round (Math_max (Fin 12000000) (js_mul (est_biogas_m3 a) (Fin 1200000)))"
    "monthly_saving (estimate a)
       = Math_round (js_mul (js_add (js_mul (est_biogas_m3 a) (est_gasPriceUZS a))
           (js_mul (js_mul (est_biogas_m3 a) (Fin 2)) (est_electricityPriceUZS a))) (Fin 30))"
    by (simp_all only: estimate_sel fs first est_thermal_kwh_def est_electric_kwh_def
        est_co2_kg_per_day_def est_capex_def est_monthly_saving_def)
  show ?thesis
    unfolding Let_def using fs first(1,2) fields same unfolding b by blast
qed

text \<open>
  A key that the catalog does not have, 600 kg a day: 18 cubic metres under the label
  of cattle manure.
\<close>

theorem estimate_unknown_key_witness:
  "feedstockKey \<lparr>feedstockKey = ''horse'', kgPerDay = Fin 600,
       gasPriceUZS = None, electricityPriceUZS = None\<rparr> \<notin> set (map key FEEDSTOCK)
   \<and> feedstock (estimate \<lparr>feedstockKey = ''horse'', kgPerDay = Fin 600,
       gasPriceUZS = None, electricityPriceUZS = None\<rparr>) = label (FEEDSTOCK ! 0)
   \<and> biogas_m3 (estimate \<lparr>feedstockKey = ''horse'', kgPerDay = Fin 600,
       gasPriceUZS = None, electricityPriceUZS = None\<rparr>) = Fin 18
   \<and> estimate \<lparr>feedstockKey = ''horse'', kgPerDay = Fin 600,
       gasPriceUZS = None, electricityPriceUZS = None\<rparr>
     = estimate \<lparr>feedstockKey = ''cattle'', kgPerDay = Fin 600,
       gasPriceUZS = None, electricityPriceUZS = None\<rparr>"
proof -
  define a where "a = \<lparr>feedstockKey = ''horse'', kgPerDay = Fin 600,
       gasPriceUZS = None, electricityPriceUZS = None\<rparr>"
  have h: "feedstockKey a \<notin> set (map key FEEDSTOCK)"
    by (simp add: a_def FEEDSTOCK_keys)
  have u: "a\<lparr>feedstockKey := ''cattle''\<rparr> = \<lparr>feedstockKey = ''cattle'', kgPerDay = Fin 600,
       gasPriceUZS = None, electricityPriceUZS = None\<rparr>"
    by (simp add: a_def)
  have kg: "kgPerDay a = Fin 600"
    by (simp add: a_def)
  have ev: "round_js (js_mul (Math_max (Fin 0) (Fin 600)) (binary64 (3 / 100))) 2 = Fin 18"
    by code_simp
  have lb: "label (FEEDSTOCK ! 0) = ''Qoramol go'' @ [CHR 0xE2, CHR 0x80, CHR 0x98] @ ''ngi''"
    by (simp add: FEEDSTOCK_def)
  from estimate_unknown_key [OF h, unfolded Let_def kg ev]
  have "feedstock (estimate a) = ''Qoramol go'' @ [CHR 0xE2, CHR 0x80, CHR 0x98] @ ''ngi''"
    and "biogas_m3 (estimate a) = Fin 18"
    and "estimate a = estimate (a\<lparr>feedstockKey := ''cattle''\<rparr>)"
    by blast+
  with h show ?thesis
    unfolding u lb unfolding a_def by blast
qed

text \<open>
  C7, in the form that holds of the code. The catalog has exactly four entries, with
  the keys and factors cattle 0.03, poultry 0.06, food 0.09 and mixed 0.05, the factors
  being the binary64 numbers that these decimals denote. For a key of the catalog and a
  finite mass \<open>q\<close> of at most \<open>10\<^sup>9\<close> kg the returned biogas volume is
  \<^verbatim>\<open>round(Math.max(0, q) * factor, 2)\<close>, and it is within \<open>1/200 + 1/10\<^sup>7\<close> of \<open>max 0 q\<close>
  times the decimal factor: \<open>1/200\<close> for the rounding to two decimals, the rest for the
  binary64 operations.
\<close>

theorem estimate_biogas_yield:
  assumes "x \<in> set FEEDSTOCK" and "feedstockKey a = key x"
    and "kgPerDay a = Fin q" and "q \<le> 10 ^ 9"
  shows "length FEEDSTOCK = 4
    \<and> map (\<lambda>p. (key p, factor_m3_per_kg p)) FEEDSTOCK
        = [(''cattle'', binary64 (3 / 100)), (''poultry'', binary64 (6 / 100)),
           (''food'', binary64 (9 / 100)), (''mixed'', binary64 (5 / 100))]
    \<and> biogas_m3 (estimate a) = round_js (js_mul (Fin (max 0 q)) (factor_m3_per_kg x)) 2
    \<and> (\<exists>f v. f \<in> {3 / 100, 6 / 100, 9 / 100, 5 / 100}
          \<and> factor_m3_per_kg x = binary64 f
          \<and> biogas_m3 (estimate a) = Fin v
          \<and> \<bar>v - max 0 q * f\<bar> \<le> 1 / 200 + 1 / 10 ^ 7)"
proof -
  have fs: "est_fs a = x"
    using assms(1,2) by (rule est_fs_known)
  obtain f r where f: "f \<in> {3 / 100, 6 / 100, 9 / 100, 5 / 100}"
    and xf: "factor_m3_per_kg x = binary64 f" and xr: "factor_m3_per_kg x = Fin r"
    and r0: "0 < r" and r8: "r \<le> 1 / 8" and rf: "\<bar>r - f\<bar> \<le> 1 / 10 ^ 17"
    using catalog_factor [OF assms(1)] by blast
  define k where "k = max 0 q"
  have k0: "0 \<le> k" and k9: "k \<le> 10 ^ 9"
    using assms(4) by (simp_all add: k_def)
  have raw: "est_biogas_m3 a = js_mul (Fin k) (factor_m3_per_kg x)"
    by (simp add: est_biogas_m3_def assms(3) fs k_def max_def)
  have kr0: "0 \<le> k * r"
    using k0 r0 by simp
  have "k * r \<le> 10 ^ 9 * (1 / 8)"
    using k0 k9 r0 r8 by (intro mult_mono) simp_all
  then have "\<bar>k * r\<bar> \<le> 2 ^ 27"
    using kr0 by simp
  then obtain b where b: "binary64 (k * r) = Fin b" and bb: "\<bar>b\<bar> \<le> 2 ^ 27"
    and be: "\<bar>b - k * r\<bar> \<le> 2 ^ 27 / 2 ^ 53 + 1 / 2 ^ 60"
    using binary64_near [of "k * r" 27] by auto
  have b0: "0 \<le> b"
    using binary64_nonneg [OF kr0] b by simp
  then have b27: "b \<le> 2 ^ 27"
    using bb by simp
  obtain v where v: "round_js (Fin b) 2 = Fin v" and ve: "\<bar>v - b\<bar> \<le> 1 / 200 + 1 / 2 ^ 24"
    using round_js_2_error [OF b0 b27] by blast
  have field: "biogas_m3 (estimate a) = Fin v"
    by (simp add: estimate_def raw xr b v)
  have "\<bar>k * r - k * f\<bar> = k * \<bar>r - f\<bar>"
    using k0 by (simp add: abs_mult right_diff_distrib [symmetric])
  also have "\<dots> \<le> 10 ^ 9 * (1 / 10 ^ 17)"
    using k0 k9 rf by (intro mult_mono) simp_all
  finally have ke: "\<bar>k * r - k * f\<bar> \<le> 1 / 10 ^ 8"
    by simp
  have err: "\<bar>v - k * f\<bar> \<le> 1 / 200 + 1 / 10 ^ 7"
    using ve be ke unfolding abs_le_iff by simp
  have cat: "map (\<lambda>p. (key p, factor_m3_per_kg p)) FEEDSTOCK
        = [(''cattle'', binary64 (3 / 100)), (''poultry'', binary64 (6 / 100)),
           (''food'', binary64 (9 / 100)), (''mixed'', binary64 (5 / 100))]"
    by (simp add: FEEDSTOCK_def)
  have len: "length FEEDSTOCK = 4"
    by (simp add: FEEDSTOCK_def)
  have eq: "biogas_m3 (estimate a) = round_js (js_mul (Fin k) (factor_m3_per_kg x)) 2"
    by (simp add: estimate_def raw)
  from f xf field err have "\<exists>f v. f \<in> {3 / 100, 6 / 100, 9 / 100, 5 / 100}
          \<and> factor_m3_per_kg x = binary64 f
          \<and> biogas_m3 (estimate a) = Fin v
          \<and> \<bar>v - k * f\<bar> \<le> 1 / 200 + 1 / 10 ^ 7"
    by blast
  with len cat eq show ?thesis
    unfolding k_def by blast
qed

text \<open>
  5.5 kg of cattle manure: the product 0.165 is computed as 0.16499999999999998 and
  returned as 0.16.
\<close>

theorem estimate_biogas_yield_witness:
  "FEEDSTOCK ! 0 \<in> set FEEDSTOCK
   \<and> feedstockKey \<lparr>feedstockKey = ''cattle'', kgPerDay = Fin (11 / 2),
        gasPriceUZS = None, electricityPriceUZS = None\<rparr> = key (FEEDSTOCK ! 0)
   \<and> kgPerDay \<lparr>feedstockKey = ''cattle'', kgPerDay = Fin (11 / 2),
        gasPriceUZS = None, electricityPriceUZS = None\<rparr> = Fin (11 / 2)
   \<and> (11 / 2 :: rat) \<le> 10 ^ 9
   \<and> biogas_m3 (estimate \<lparr>feedstockKey = ''cattle'', kgPerDay = Fin (11 / 2),
        gasPriceUZS = None, electricityPriceUZS = None\<rparr>) = binary64 (16 / 100)"
proof -
  define a where "a = \<lparr>feedstockKey = ''cattle'', kgPerDay = Fin (11 / 2),
        gasPriceUZS = None, electricityPriceUZS = None\<rparr>"
  have x: "FEEDSTOCK ! 0 \<in> set FEEDSTOCK"
    by (simp add: FEEDSTOCK_def)
  have k: "feedstockKey a = key (FEEDSTOCK ! 0)"
    by (simp add: a_def FEEDSTOCK_def)
  have m: "kgPerDay a = Fin (11 / 2)"
    by (simp add: a_def)
  have q: "(11 / 2 :: rat) \<le> 10 ^ 9"
    by simp
  have ev: "round_js (js_mul (Fin (max 0 (11 / 2))) (factor_m3_per_kg (FEEDSTOCK ! 0))) 2
      = binary64 (16 / 100)"
    by code_simp
  from estimate_biogas_yield [OF x k m q]
  have "biogas_m3 (estimate a)
      = round_js (js_mul (Fin (max 0 (11 / 2))) (factor_m3_per_kg (FEEDSTOCK ! 0))) 2"
    by blast
  then have "biogas_m3 (estimate a) = binary64 (16 / 100)"
    by (simp only: ev)
  with x k m q show ?thesis
    unfolding a_def by blast
qed

text \<open>
  Without a bound on the mass the two decimals are lost. For \<open>2 ^ 60\<close> kg of cattle
  manure a day the returned volume is 34587645138205408, more than 1 away from the
  product with 0.03, which is 34587645138205409.28.
\<close>

theorem estimate_biogas_yield_counterexample:
  "feedstockKey huge_calc = key (FEEDSTOCK ! 0)
   \<and> kgPerDay huge_calc = Fin 1152921504606846976
   \<and> biogas_m3 (estimate huge_calc) = Fin 34587645138205408
   \<and> 1 < \<bar>34587645138205408 - 1152921504606846976 * (3 / 100) :: rat\<bar>"
  by (simp add: huge_field) (simp add: huge_calc_def FEEDSTOCK_def)

subsection \<open>Defaults\<close>

text \<open>
  C9. A price that is left out of the argument is replaced by its default, 1800 for
  the gas price and 450 for the electricity price: the returned monthly saving is
  computed with 1800, with 450, or with both, and \<^verbatim>\<open>estimate\<close> returns what it returns
  when the default is passed. At 600 kg of cattle manure a day the monthly saving is
  1,458,000 with both prices left out, 972,000 with the gas price left out and an
  electricity price of 0, and 486,000 with a gas price of 0 and the electricity price
  left out.
\<close>

theorem estimate_default_prices:
  "est_gasPriceUZS (a\<lparr>gasPriceUZS := None\<rparr>) = Fin 1800
   \<and> est_electricityPriceUZS (a\<lparr>electricityPriceUZS := None\<rparr>) = Fin 450
   \<and> monthly_saving (estimate (a\<lparr>gasPriceUZS := None\<rparr>))
       = Math_round (js_mul (js_add (js_mul (est_biogas_m3 a) (Fin 1800))
           (js_mul (est_electric_kwh a) (est_electricityPriceUZS a))) (Fin 30))
   \<and> monthly_saving (estimate (a\<lparr>electricityPriceUZS := None\<rparr>))
       = Math_round (js_mul (js_add (js_mul (est_biogas_m3 a) (est_gasPriceUZS a))
           (js_mul (est_electric_kwh a) (Fin 450))) (Fin 30))
   \<and> monthly_saving (estimate (a\<lparr>gasPriceUZS := None, electricityPriceUZS := None\<rparr>))
       = Math_round (js_mul (js_add (js_mul (est_biogas_m3 a) (Fin 1800))
           (js_mul (est_electric_kwh a) (Fin 450))) (Fin 30))
   \<and> estimate (a\<lparr>gasPriceUZS := None\<rparr>) = estimate (a\<lparr>gasPriceUZS := Some (Fin 1800)\<rparr>)
   \<and> estimate (a\<lparr>electricityPriceUZS := None\<rparr>)
       = estimate (a\<lparr>electricityPriceUZS := Some (Fin 450)\<rparr>)
   \<and> estimate (a\<lparr>gasPriceUZS := None, electricityPriceUZS := None\<rparr>)
       = estimate (a\<lparr>gasPriceUZS := Some (Fin 1800), electricityPriceUZS := Some (Fin 450)\<rparr>)
   \<and> monthly_saving (estimate \<lparr>feedstockKey = ''cattle'', kgPerDay = Fin 600,
        gasPriceUZS = None, electricityPriceUZS = None\<rparr>) = Fin 1458000
   \<and> monthly_saving (estimate \<lparr>feedstockKey = ''cattle'', kgPerDay = Fin 600,
        gasPriceUZS = None, electricityPriceUZS = Some (Fin 0)\<rparr>) = Fin 972000
   \<and> monthly_saving (estimate \<lparr>feedstockKey = ''cattle'', kgPerDay = Fin 600,
        gasPriceUZS = Some (Fin 0), electricityPriceUZS = None\<rparr>) = Fin 486000"
proof -
  have general: "est_gasPriceUZS (a\<lparr>gasPriceUZS := None\<rparr>) = Fin 1800"
    "est_electricityPriceUZS (a\<lparr>electricityPriceUZS := None\<rparr>) = Fin 450"
    "monthly_saving (estimate (a\<lparr>gasPriceUZS := None\<rparr>))
       = Math_round (js_mul (js_add (js_mul (est_biogas_m3 a) (Fin 1800))
           (js_mul (est_electric_kwh a) (est_electricityPriceUZS a))) (Fin 30))"
    "monthly_saving (estimate (a\<lparr>electricityPriceUZS := None\<rparr>))
       = Math_round (js_mul (js_add (js_mul (est_biogas_m3 a) (est_gasPriceUZS a))
           (js_mul (est_electric_kwh a) (Fin 450))) (Fin 30))"
    "monthly_saving (estimate (a\<lparr>gasPriceUZS := None, electricityPriceUZS := None\<rparr>))
       = Math_round (js_mul (js_add (js_mul (est_biogas_m3 a) (Fin 1800))
           (js_mul (est_electric_kwh a) (Fin 450))) (Fin 30))"
    "estimate (a\<lparr>gasPriceUZS := None\<rparr>) = estimate (a\<lparr>gasPriceUZS := Some (Fin 1800)\<rparr>)"
    "estimate (a\<lparr>electricityPriceUZS := None\<rparr>)
       = estimate (a\<lparr>electricityPriceUZS := Some (Fin 450)\<rparr>)"
    "estimate (a\<lparr>gasPriceUZS := None, electricityPriceUZS := None\<rparr>)
       = estimate (a\<lparr>gasPriceUZS := Some (Fin 1800), electricityPriceUZS := Some (Fin 450)\<rparr>)"
    by (simp_all add: estimate_def est_defs)
  have raw: "est_biogas_m3 \<lparr>feedstockKey = ''cattle'', kgPerDay = Fin 600,
        gasPriceUZS = g, electricityPriceUZS = e\<rparr> = Fin 18" for g e
    by (simp add: est_biogas_m3_def est_fs_def FEEDSTOCK_def max_def)
       code_simp
  have el: "est_electric_kwh \<lparr>feedstockKey = ''cattle'', kgPerDay = Fin 600,
        gasPriceUZS = g, electricityPriceUZS = e\<rparr> = Fin 36" for g e
    unfolding est_electric_kwh_def raw by code_simp
  have c1: "monthly_saving (estimate \<lparr>feedstockKey = ''cattle'', kgPerDay = Fin 600,
        gasPriceUZS = None, electricityPriceUZS = None\<rparr>) = Fin 1458000"
    unfolding estimate_sel est_monthly_saving_def raw el
    by (simp add: est_gasPriceUZS_def est_electricityPriceUZS_def) code_simp
  have c2: "monthly_saving (estimate \<lparr>feedstockKey = ''cattle'', kgPerDay = Fin 600,
        gasPriceUZS = None, electricityPriceUZS = Some (Fin 0)\<rparr>) = Fin 972000"
    unfolding estimate_sel est_monthly_saving_def raw el
    by (simp add: est_gasPriceUZS_def est_electricityPriceUZS_def) code_simp
  have c3: "monthly_saving (estimate \<lparr>feedstockKey = ''cattle'', kgPerDay = Fin 600,
        gasPriceUZS = Some (Fin 0), electricityPriceUZS = None\<rparr>) = Fin 486000"
    unfolding estimate_sel est_monthly_saving_def raw el
    by (simp add: est_gasPriceUZS_def est_electricityPriceUZS_def) code_simp
  from general c1 c2 c3 show ?thesis
    by (intro conjI)
qed

end
